theory Spec2Isabelle
  imports Main "HOL-Library.Word"
begin

unbundle bit_operations_syntax

section \<open>Bytes, struct packing and Python slicing\<close>

type_synonym byte = "8 word"
type_synonym bytes = "byte list"

text \<open>The exceptions the modelled code can raise. \<open>CrcCheckFailed\<close> carries the
  stored and the calculated CRC (abc.py); it is declared as a subclass of
  \<open>CorruptRecordException\<close>.\<close>

datatype error =
    CorruptRecordException
  | CrcCheckFailed int int
  | StructError
  | ValueError
  | TypeError
  | IndexError
  | AttributeError
  | AssertionError
  | UnboundLocalError
  | CodecError


text \<open>Big-endian reading of a byte string, unsigned and two's complement.\<close>

definition be_uint :: "bytes \<Rightarrow> int" where
  "be_uint bs = foldl (\<lambda>a b. a * 256 + uint b) 0 bs"

definition be_sint :: "bytes \<Rightarrow> int" where
  "be_sint bs =
     (let u = be_uint bs; n = 8 * length bs
      in if n \<noteq> 0 \<and> 2 ^ (n - 1) \<le> u then u - 2 ^ n else u)"

text \<open>\<open>struct.unpack_from(fmt, buffer, offset)\<close> for one big-endian signed integer of
  \<open>n\<close> bytes. A negative offset counts from the end of the buffer; an offset that leaves
  fewer than \<open>n\<close> bytes raises \<open>struct.error\<close>.\<close>

definition unpack_from :: "nat \<Rightarrow> bytes \<Rightarrow> int \<Rightarrow> error + int" where
  "unpack_from n buf offset =
     (let len = int (length buf);
          off = (if offset < 0 then offset + len else offset)
      in if off < 0 \<or> len - off < int n then Inl StructError
         else Inr (be_sint (take n (drop (nat off) buf))))"

text \<open>Python's \<open>xs[i:j]\<close>: negative bounds count from the end, and both are clipped.\<close>

definition py_clip :: "int \<Rightarrow> int \<Rightarrow> int" where
  "py_clip n k = (if k < 0 then max 0 (k + n) else min k n)"

definition py_slice :: "'a list \<Rightarrow> int \<Rightarrow> int \<Rightarrow> 'a list" where
  "py_slice xs i j =
     (let n = int (length xs); a = py_clip n i; b = py_clip n j
      in take (nat (b - a)) (drop (nat a) xs))"

text \<open>Python's \<open>xs[i]\<close>: a negative index counts from the end; out of range raises.\<close>

definition py_index :: "'a list \<Rightarrow> int \<Rightarrow> error + 'a" where
  "py_index xs i =
     (let n = int (length xs); k = (if i < 0 then i + n else i)
      in if k < 0 \<or> n \<le> k then Inl IndexError else Inr (xs ! nat k))"

section \<open>memory_records.py\<close>

definition LENGTH_OFFSET :: int where "LENGTH_OFFSET = 8"
definition LOG_OVERHEAD :: int where "LOG_OVERHEAD = 12"
definition MAGIC_OFFSET :: int where "MAGIC_OFFSET = 16"
definition RECORD_OVERHEAD_V0 :: int where "RECORD_OVERHEAD_V0 = 14"

text \<open>The \<open>while\<close> loop of \<open>MemoryRecords._split_slices\<close>. The arguments are the loop
  variables \<open>next_slice\<close>, \<open>remaining\<close> and \<open>slices\<close>; both \<open>break\<close>s and the
  normal exit return \<open>(slices, remaining)\<close>.\<close>

function split_loop :: "bytes \<Rightarrow> int \<Rightarrow> int \<Rightarrow> bytes list \<Rightarrow> error + (bytes list \<times> int)" where
  "split_loop bytes_data next_slice remaining slices =
     (if next_slice = int (length bytes_data) then Inr (slices, remaining)
      else
        let remaining' = int (length bytes_data) - next_slice in
        if remaining' \<noteq> 0 \<and> remaining' < LOG_OVERHEAD then Inr (slices, remaining')
        else
          case unpack_from 4 bytes_data (next_slice + LENGTH_OFFSET) of
            Inl e \<Rightarrow> Inl e
          | Inr len \<Rightarrow>
              if len < RECORD_OVERHEAD_V0 then Inl CorruptRecordException
              else
                let slice_end = next_slice + len + LOG_OVERHEAD in
                if slice_end > int (length bytes_data) then Inr (slices, remaining')
                else split_loop bytes_data slice_end remaining'
                       (slices @ [py_slice bytes_data next_slice slice_end]))"
  by pat_completeness auto
termination
  by (relation "measure (\<lambda>(b, ns, r, s). nat (int (length b) - ns))")
     (auto simp: RECORD_OVERHEAD_V0_def LOG_OVERHEAD_def)

declare split_loop.simps [simp del]

definition split_slices :: "bytes \<Rightarrow> error + (bytes list \<times> int)" where
  "split_slices bytes_data = split_loop bytes_data 0 0 []"

record MemoryRecords =
  mr_buffer :: bytes
  mr_slices :: "bytes list"
  mr_remaining :: int
  mr_next_slice :: int

definition MemoryRecords_init :: "bytes \<Rightarrow> error + MemoryRecords" where
  "MemoryRecords_init bytes_data =
     (case split_slices bytes_data of
        Inl e \<Rightarrow> Inl e
      | Inr (slices, remaining) \<Rightarrow>
          Inr \<lparr>mr_buffer = bytes_data, mr_slices = slices,
               mr_remaining = remaining, mr_next_slice = 0\<rparr>)"

definition size_in_bytes :: "MemoryRecords \<Rightarrow> int" where
  "size_in_bytes s = int (length (mr_buffer s))"

definition valid_bytes :: "MemoryRecords \<Rightarrow> int" where
  "valid_bytes s = int (length (mr_buffer s)) - mr_remaining s"

definition has_next :: "MemoryRecords \<Rightarrow> bool" where
  "has_next s = (int (length (mr_slices s)) > mr_next_slice s)"

text \<open>The two reader classes \<open>next_batch\<close> constructs. Their constructors are not part of
  memory_records.py; a constructed reader is represented by the constructor call itself.\<close>

datatype batch = DefaultRecordBatch bytes | LegacyRecordBatch bytes int

text \<open>\<open>next_batch\<close> returns the value (or the exception) together with the object's state
  after the call: the cursor is advanced before the magic byte is unpacked.\<close>

definition next_batch :: "MemoryRecords \<Rightarrow> (error + batch option) \<times> MemoryRecords" where
  "next_batch s =
     (if \<not> has_next s then (Inr None, s)
      else
        case py_index (mr_slices s) (mr_next_slice s) of
          Inl e \<Rightarrow> (Inl e, s)
        | Inr buffer \<Rightarrow>
            let s' = s\<lparr>mr_next_slice := mr_next_slice s + 1\<rparr> in
            (case unpack_from 1 buffer MAGIC_OFFSET of
               Inl e \<Rightarrow> (Inl e, s')
             | Inr magic \<Rightarrow>
                 if magic \<ge> 2 then (Inr (Some (DefaultRecordBatch buffer)), s')
                 else (Inr (Some (LegacyRecordBatch buffer magic)), s')))"


text \<open>The states a \<open>MemoryRecords\<close> object over \<open>bs\<close> can be in: as constructed, and after
  any number of \<open>next_batch\<close> calls.\<close>

inductive mr_reachable :: "bytes \<Rightarrow> MemoryRecords \<Rightarrow> bool" for bs :: bytes where
  mr_init: "MemoryRecords_init bs = Inr s \<Longrightarrow> mr_reachable bs s"
| mr_step: "mr_reachable bs s \<Longrightarrow> mr_reachable bs (snd (next_batch s))"

subsection \<open>What the batch iterator is specified to do\<close>

text \<open>\<open>slices_from bs c ss\<close>: the slices \<open>ss\<close> are consecutive batches of \<open>bs\<close> starting at
  cursor \<open>c\<close>: each is \<open>[cursor, cursor + 12 + length)\<close> with the length read as a big-endian
  Int32 at offset 8 from the cursor, and the next cursor is where the slice ends.\<close>

fun slices_from :: "bytes \<Rightarrow> int \<Rightarrow> bytes list \<Rightarrow> bool" where
  "slices_from bs c [] = True"
| "slices_from bs c (s # ss) =
     (case unpack_from 4 bs (c + LENGTH_OFFSET) of
        Inl e \<Rightarrow> False
      | Inr len \<Rightarrow> s = py_slice bs c (c + len + LOG_OVERHEAD)
                 \<and> slices_from bs (c + len + LOG_OVERHEAD) ss)"

text \<open>\<open>batch_boundary bs c\<close>: \<open>c\<close> is the start of the buffer or the end of a whole batch
  that itself starts at a batch boundary and declares a length of at least the minimum
  record overhead.\<close>

inductive batch_boundary :: "bytes \<Rightarrow> int \<Rightarrow> bool" for bs :: bytes where
  bb_start: "batch_boundary bs 0"
| bb_next: "batch_boundary bs c \<Longrightarrow> 12 \<le> int (length bs) - c \<Longrightarrow>
            unpack_from 4 bs (c + 8) = Inr len \<Longrightarrow> 14 \<le> len \<Longrightarrow>
            c + len + 12 \<le> int (length bs) \<Longrightarrow> batch_boundary bs (c + len + 12)"

text \<open>The reader the iterator is specified to construct for a slice: by the Magic byte at
  offset 16, read as a signed byte.\<close>

definition reader_for :: "bytes \<Rightarrow> batch" where
  "reader_for b =
     (let magic = be_sint [b ! 16]
      in if magic \<ge> 2 then DefaultRecordBatch b else LegacyRecordBatch b magic)"

subsection \<open>Example buffers\<close>

text \<open>A 26-byte batch declaring length 14 with Magic 2, and a 27-byte batch declaring
  length 15 with Magic 1.\<close>

definition batch_v2 :: bytes where
  "batch_v2 = [0,0,0,0,0,0,0,0, 0,0,0,14, 1,2,3,4, 2,0, 0,0,0,0, 0,0,0,0]"

definition batch_v1 :: bytes where
  "batch_v1 = [0,0,0,0,0,0,0,1, 0,0,0,15, 1,2,3,4, 1,0, 0,0,0,0, 0,0,0,0, 7]"

section \<open>Wire encodings used by legacy_records.py\<close>

text \<open>legacy_records.py imports \<open>Int32\<close>, \<open>Int64\<close>, \<open>Message\<close>, \<open>MessageSet\<close> and the
  codecs from the kafka package, which is not part of this repository. The integer types
  are \<open>struct.pack\<close>/\<open>struct.unpack\<close> with big-endian signed formats; a value out of range
  raises \<open>struct.error\<close>.\<close>

fun be_bytes :: "nat \<Rightarrow> int \<Rightarrow> bytes" where
  "be_bytes 0 v = []"
| "be_bytes (Suc n) v = be_bytes n (v div 256) @ [word_of_int (v mod 256)]"

definition pack :: "nat \<Rightarrow> int \<Rightarrow> error + bytes" where
  "pack n v =
     (if - (2 ^ (8 * n - 1)) \<le> v \<and> v < 2 ^ (8 * n - 1) then Inr (be_bytes n v)
      else Inl StructError)"

definition Int8_encode :: "int \<Rightarrow> error + bytes" where "Int8_encode = pack 1"
definition Int32_encode :: "int \<Rightarrow> error + bytes" where "Int32_encode = pack 4"
definition Int64_encode :: "int \<Rightarrow> error + bytes" where "Int64_encode = pack 8"

text \<open>Sequencing of computations that may raise.\<close>

definition and_then :: "error + 'a \<Rightarrow> ('a \<Rightarrow> error + 'b) \<Rightarrow> error + 'b" where
  "and_then m f = (case m of Inl e \<Rightarrow> Inl e | Inr x \<Rightarrow> f x)"

text \<open>Modelled from the spec: \<open>kafka.protocol.types.Bytes\<close> is missing from src/. Section 6.1:
  a byte string is its Int32 length followed by the bytes; a null byte string is encoded
  with length \<open>-1\<close>.\<close>

definition Bytes_encode :: "bytes option \<Rightarrow> error + bytes" where
  "Bytes_encode v =
     (case v of
        None \<Rightarrow> Int32_encode (- 1)
      | Some b \<Rightarrow> and_then (Int32_encode (int (length b))) (\<lambda>l. Inr (l @ b)))"

text \<open>Reading from the front of a byte string: the value and the rest. Running out of
  bytes is the \<open>ValueError\<close> the kafka types raise.\<close>

definition read_int :: "nat \<Rightarrow> bytes \<Rightarrow> error + (int \<times> bytes)" where
  "read_int n bs =
     (if length bs < n then Inl ValueError else Inr (be_sint (take n bs), drop n bs))"

definition read_Bytes :: "bytes \<Rightarrow> error + (bytes option \<times> bytes)" where
  "read_Bytes bs =
     and_then (read_int 4 bs) (\<lambda>(len, rest).
       if len < 0 then Inr (None, rest)
       else if length rest < nat len then Inl ValueError
       else Inr (Some (take (nat len) rest), drop (nat len) rest))"

subsection \<open>The environment\<close>

text \<open>The codecs, the CRC and the clock are supplied by the environment: \<open>crc32\<close> is
  \<open>kafka.util.crc32\<close> (the 32-bit CRC, read as a signed integer), \<open>now_ms\<close> is
  \<open>int(time.time() * 1000)\<close>, and the encoders and decoders are those of \<open>kafka.codec\<close>;
  a decoder that cannot decode its input gives \<open>None\<close>, which the caller sees as a
  \<open>CodecError\<close>.\<close>

record env =
  crc32 :: "bytes \<Rightarrow> 32 word"
  now_ms :: int
  gzip_encode :: "bytes \<Rightarrow> bytes"
  snappy_encode :: "bytes \<Rightarrow> bytes"
  lz4_encode :: "bytes \<Rightarrow> bytes"
  lz4_encode_old_kafka :: "bytes \<Rightarrow> bytes"
  gzip_decode :: "bytes \<Rightarrow> bytes option"
  snappy_decode :: "bytes \<Rightarrow> bytes option"
  lz4_decode :: "bytes \<Rightarrow> bytes option"
  lz4_decode_old_kafka :: "bytes \<Rightarrow> bytes option"

subsection \<open>Message\<close>

text \<open>Modelled from the spec: \<open>kafka.protocol.message.Message\<close> is missing from src/.
  Section 4.3 gives the frame of a message after its offset and size:
  \<open>CRC:i32 | Magic:i8 | Attributes:i8 | [Timestamp:i64 if magic>=1] | KeyLen:i32 | Key |
  ValueLen:i32 | Value\<close>; the CRC covers the bytes after the CRC field. The low three bits
  of the attributes are the compression code and bit 3 is the timestamp type (section 4.5,
  section 6.1). \<open>msg_validated_crc\<close> is the CRC calculated over the bytes a message was
  decoded from.\<close>

record Message =
  msg_crc :: int
  msg_magic :: int
  msg_attributes :: int
  msg_timestamp :: "int option"
  msg_key :: "bytes option"
  msg_value :: "bytes option"
  msg_validated_crc :: "int option"

definition CODEC_MASK :: int where "CODEC_MASK = 7"
definition CODEC_GZIP :: int where "CODEC_GZIP = 1"
definition CODEC_SNAPPY :: int where "CODEC_SNAPPY = 2"
definition CODEC_LZ4 :: int where "CODEC_LZ4 = 3"
definition TIMESTAMP_TYPE_MASK :: int where "TIMESTAMP_TYPE_MASK = 8"

text \<open>The sizes of the message-set header (offset and size) and of the largest message
  header (CRC, magic, attributes, timestamp, key length, value length).\<close>

definition MessageSet_HEADER_SIZE :: int where "MessageSet_HEADER_SIZE = 12"
definition Message_HEADER_SIZE :: int where "Message_HEADER_SIZE = 22"

text \<open>\<open>Message(value, key, magic, attributes, crc, timestamp)\<close>: a timestamp needs
  magic above 0, and a message of magic above 0 without one takes the current time.\<close>

definition Message_init ::
  "env \<Rightarrow> bytes option \<Rightarrow> bytes option \<Rightarrow> int \<Rightarrow> int \<Rightarrow> int \<Rightarrow> int option \<Rightarrow> error + Message" where
  "Message_init ev val key magic attributes crc timestamp =
     (if \<not> (magic > 0 \<or> timestamp = None) then Inl AssertionError
      else Inr \<lparr>msg_crc = crc, msg_magic = magic, msg_attributes = attributes,
                msg_timestamp = (if magic > 0 \<and> timestamp = None then Some (now_ms ev)
                                 else timestamp),
                msg_key = key, msg_value = val, msg_validated_crc = None\<rparr>)"

text \<open>The bytes of a message after its CRC field.\<close>

definition Message_body :: "Message \<Rightarrow> error + bytes" where
  "Message_body m =
     (if msg_magic m = 1 then
        and_then (Int8_encode (msg_magic m)) (\<lambda>a.
        and_then (Int8_encode (msg_attributes m)) (\<lambda>b.
        and_then (case msg_timestamp m of None \<Rightarrow> Inl StructError
                  | Some t \<Rightarrow> Int64_encode t) (\<lambda>c.
        and_then (Bytes_encode (msg_key m)) (\<lambda>d.
        and_then (Bytes_encode (msg_value m)) (\<lambda>e. Inr (a @ b @ c @ d @ e))))))
      else if msg_magic m = 0 then
        and_then (Int8_encode (msg_magic m)) (\<lambda>a.
        and_then (Int8_encode (msg_attributes m)) (\<lambda>b.
        and_then (Bytes_encode (msg_key m)) (\<lambda>d.
        and_then (Bytes_encode (msg_value m)) (\<lambda>e. Inr (a @ b @ d @ e)))))
      else Inl ValueError)"

text \<open>\<open>Message.encode()\<close>: the fields are packed with the stored CRC first, then the CRC
  is recalculated over the body and takes the place of the first four bytes.\<close>

definition Message_encode :: "env \<Rightarrow> Message \<Rightarrow> error + bytes" where
  "Message_encode ev m =
     (if msg_magic m \<noteq> 0 \<and> msg_magic m \<noteq> 1 then Inl ValueError
      else
        and_then (Int32_encode (msg_crc m)) (\<lambda>stored.
        and_then (Message_body m) (\<lambda>body.
        and_then (Int32_encode (sint (crc32 ev body))) (\<lambda>crc. Inr (crc @ body)))))"

text \<open>\<open>Message.decode(data)\<close> on the bytes of one message. A magic other than 0 and 1 has no
  schema.\<close>

definition Message_decode :: "env \<Rightarrow> bytes \<Rightarrow> error + Message" where
  "Message_decode ev data =
     and_then (read_int 4 data) (\<lambda>(crc, r1).
     and_then (read_int 1 r1) (\<lambda>(magic, r2).
     and_then (read_int 1 r2) (\<lambda>(attributes, r3).
       if magic \<noteq> 0 \<and> magic \<noteq> 1 then Inl IndexError
       else
         and_then (if magic = 1
                   then and_then (read_int 8 r3) (\<lambda>(t, r). Inr (Some t, r))
                   else Inr (None, r3)) (\<lambda>(timestamp, r4).
         and_then (read_Bytes r4) (\<lambda>(key, r5).
         and_then (read_Bytes r5) (\<lambda>(val, r6).
           Inr \<lparr>msg_crc = crc, msg_magic = magic, msg_attributes = attributes,
                msg_timestamp = timestamp, msg_key = key, msg_value = val,
                msg_validated_crc = Some (sint (crc32 ev (drop 4 data)))\<rparr>))))))"

definition Message_is_compressed :: "Message \<Rightarrow> bool" where
  "Message_is_compressed m = (msg_attributes m AND CODEC_MASK \<noteq> 0)"

definition Message_timestamp_type :: "Message \<Rightarrow> int option" where
  "Message_timestamp_type m =
     (if msg_magic m = 0 then None
      else if msg_attributes m AND TIMESTAMP_TYPE_MASK \<noteq> 0 then Some 1
      else Some 0)"


subsection \<open>MessageSet\<close>

text \<open>Modelled from the spec: \<open>kafka.protocol.message.MessageSet\<close> is missing from src/.
  Section 4.3: a message set is a sequence of \<open>Offset:i64 | MessageSize:i32 | message\<close>,
  and as a whole it is prefixed with a 4-byte total length. Decoding gives the triples
  \<open>(offset, size, message)\<close> the reader unpacks; a message cut short is a
  \<open>PartialItem\<close>, which ends the list.\<close>

datatype mset_item = Item int int Message | PartialItem

function decode_items :: "env \<Rightarrow> int \<Rightarrow> bytes \<Rightarrow> error + mset_item list" where
  "decode_items ev bytes_to_read raw =
     (if bytes_to_read = 0 then Inr []
      else
        case read_int 8 raw of
          Inl e \<Rightarrow> Inr [PartialItem]
        | Inr (offset, r1) \<Rightarrow>
            (case read_Bytes r1 of
               Inl e \<Rightarrow> Inr [PartialItem]
             | Inr (None, r2) \<Rightarrow> Inl TypeError
             | Inr (Some msg_bytes, r2) \<Rightarrow>
                 (case Message_decode ev msg_bytes of
                    Inl e \<Rightarrow> (if e = ValueError then Inr [PartialItem] else Inl e)
                  | Inr m \<Rightarrow>
                      and_then
                        (decode_items ev (bytes_to_read - (8 + 4 + int (length msg_bytes))) r2)
                        (\<lambda>items. Inr (Item offset (int (length msg_bytes)) m # items)))))"
  by pat_completeness auto
termination
  by (relation "measure (\<lambda>(ev, n, raw). length raw)")
     (auto simp: read_int_def read_Bytes_def and_then_def split: if_splits)

declare decode_items.simps [simp del]

text \<open>\<open>MessageSet.decode(data)\<close>: the Int32 length, then that many bytes of items (a
  negative count reads to the end).\<close>

definition MessageSet_decode :: "env \<Rightarrow> bytes \<Rightarrow> error + mset_item list" where
  "MessageSet_decode ev data =
     and_then (read_int 4 data) (\<lambda>(bytes_to_read, rest).
       decode_items ev bytes_to_read
         (if bytes_to_read < 0 then rest else take (nat bytes_to_read) rest))"

text \<open>\<open>Message.decompress()\<close>: the codec named by the attributes decodes the value, and
  the result is decoded as a message set of that many bytes.\<close>

definition Message_decompress :: "env \<Rightarrow> Message \<Rightarrow> error + mset_item list" where
  "Message_decompress ev m =
     (let codec = msg_attributes m AND CODEC_MASK in
      if codec \<noteq> CODEC_GZIP \<and> codec \<noteq> CODEC_SNAPPY \<and> codec \<noteq> CODEC_LZ4
      then Inl AssertionError
      else
        case msg_value m of
          None \<Rightarrow> Inl TypeError
        | Some v \<Rightarrow>
            (case (if codec = CODEC_GZIP then gzip_decode ev v
                   else if codec = CODEC_SNAPPY then snappy_decode ev v
                   else if msg_magic m = 0 then lz4_decode_old_kafka ev v
                   else lz4_decode ev v) of
               None \<Rightarrow> Inl CodecError
             | Some raw_bytes \<Rightarrow> decode_items ev (int (length raw_bytes)) raw_bytes))"

section \<open>legacy_records.py\<close>

subsection \<open>io.BytesIO\<close>

text \<open>A \<open>BytesIO\<close> is its contents and its position. Writing overwrites from the
  position on and extends the contents as needed (padding with zero bytes when the position
  lies past the end); \<open>truncate()\<close> cuts the contents at the position.\<close>

record bytesio =
  bio_data :: bytes
  bio_pos :: nat

definition bio_new :: bytesio where
  "bio_new = \<lparr>bio_data = [], bio_pos = 0\<rparr>"

definition bio_write :: "bytesio \<Rightarrow> bytes \<Rightarrow> bytesio" where
  "bio_write b bs =
     (let p = bio_pos b;
          d = bio_data b @ replicate (p - length (bio_data b)) 0
      in \<lparr>bio_data = take p d @ bs @ drop (p + length bs) d, bio_pos = p + length bs\<rparr>)"

definition bio_tell :: "bytesio \<Rightarrow> int" where
  "bio_tell b = int (bio_pos b)"

definition bio_seek :: "bytesio \<Rightarrow> nat \<Rightarrow> bytesio" where
  "bio_seek b n = b\<lparr>bio_pos := n\<rparr>"

definition bio_truncate :: "bytesio \<Rightarrow> bytesio" where
  "bio_truncate b = b\<lparr>bio_data := take (bio_pos b) (bio_data b)\<rparr>"

text \<open>\<open>bio_read_all\<close>: what a reader of the stream sees, the bytes from the position on.\<close>

definition bio_read_all :: "bytesio \<Rightarrow> bytes" where
  "bio_read_all b = drop (bio_pos b) (bio_data b)"

text \<open>Assignment to a slice of a memory view, \<open>view[i:j] = src\<close>: the slice and the source
  must have the same length.\<close>

definition mv_assign :: "bytes \<Rightarrow> int \<Rightarrow> int \<Rightarrow> bytes \<Rightarrow> error + bytes" where
  "mv_assign view i j src =
     (let n = int (length view); a = py_clip n i; b = py_clip n j
      in if nat (b - a) \<noteq> length src then Inl ValueError
         else Inr (take (nat a) view @ src @ drop (nat a + length src) view))"

subsection \<open>LegacyRecordBatchWriter\<close>

record LegacyRecordBatchWriter =
  w_magic :: int
  w_compression_type :: int
  w_batch_size :: int
  w_buffer :: bytesio
  w_first_message :: bool

text \<open>\<open>__init__\<close>: the buffer starts with four bytes for the batch size,
  \<open>Int32.encode(0)\<close>.\<close>

definition LegacyRecordBatchWriter_init :: "int \<Rightarrow> int \<Rightarrow> int \<Rightarrow> LegacyRecordBatchWriter" where
  "LegacyRecordBatchWriter_init magic compression_type batch_size =
     \<lparr>w_magic = magic, w_compression_type = compression_type, w_batch_size = batch_size,
      w_buffer = bio_write bio_new (be_bytes 4 0), w_first_message = True\<rparr>"

definition bytes_len :: "bytes option \<Rightarrow> int" where
  "bytes_len v = (case v of None \<Rightarrow> 0 | Some b \<Rightarrow> int (length b))"

definition is_full :: "LegacyRecordBatchWriter \<Rightarrow> bytes option \<Rightarrow> bytes option \<Rightarrow> bool" where
  "is_full w key val =
     (if w_first_message w then False
      else
        let needed_bytes = MessageSet_HEADER_SIZE + Message_HEADER_SIZE
                           + bytes_len key + bytes_len val
        in bio_tell (w_buffer w) + needed_bytes > w_batch_size w)"

text \<open>\<open>append\<close> returns its result, or the exception it raises, together with the writer
  after the call: \<open>_first_message\<close> is cleared before the message is encoded, and the buffer
  is written only after everything has been encoded.\<close>

type_synonym headers = "(bytes \<times> bytes option) list option"

definition append ::
  "env \<Rightarrow> LegacyRecordBatchWriter \<Rightarrow> int \<Rightarrow> int option \<Rightarrow> bytes option \<Rightarrow> bytes option \<Rightarrow>
   headers \<Rightarrow> (error + bool) \<times> LegacyRecordBatchWriter" where
  "append ev w offset timestamp key val hdrs =
     (if hdrs \<noteq> None \<and> hdrs \<noteq> Some [] then (Inl AssertionError, w)
      else if is_full w key val then (Inr False, w)
      else
        let w1 = w\<lparr>w_first_message := False\<rparr>;
            msg_inst = (if w_magic w = 0 then Message_init ev val key (w_magic w) 0 0 None
                        else Message_init ev val key (w_magic w) 0 0 timestamp)
        in case and_then msg_inst (\<lambda>m.
                and_then (Message_encode ev m) (\<lambda>encoded.
                and_then (Int64_encode offset) (\<lambda>off.
                and_then (Int32_encode (int (length encoded))) (\<lambda>sz.
                  Inr (off @ sz, encoded))))) of
             Inl e \<Rightarrow> (Inl e, w1)
           | Inr (msg, encoded) \<Rightarrow>
               (Inr True,
                w1\<lparr>w_buffer := bio_write (bio_write (w_buffer w1) msg) encoded\<rparr>))"

text \<open>The codec chosen by \<open>_maybe_compress\<close> for the records region; a compression type
  other than the three codes leaves \<open>compressed\<close> unbound.\<close>

definition compress_region :: "env \<Rightarrow> int \<Rightarrow> int \<Rightarrow> bytes \<Rightarrow> error + bytes" where
  "compress_region ev compression_type magic data =
     (if compression_type = CODEC_GZIP then Inr (gzip_encode ev data)
      else if compression_type = CODEC_SNAPPY then Inr (snappy_encode ev data)
      else if compression_type = CODEC_LZ4 then
        (if magic = 0 then Inr (lz4_encode_old_kafka ev data)
         else Inr (lz4_encode ev data))
      else Inl UnboundLocalError)"

definition maybe_compress ::
  "env \<Rightarrow> LegacyRecordBatchWriter \<Rightarrow> (error + bool) \<times> LegacyRecordBatchWriter" where
  "maybe_compress ev w =
     (if w_compression_type w \<noteq> 0 then
        let data = drop 4 (bio_data (w_buffer w)) in
        case and_then (compress_region ev (w_compression_type w) (w_magic w) data) (\<lambda>compressed.
             and_then (Message_init ev (Some compressed) None (w_magic w)
                         (w_compression_type w) 0 None) (\<lambda>msg.
             Message_encode ev msg)) of
          Inl e \<Rightarrow> (Inl e, w)
        | Inr encoded \<Rightarrow>
            let header_size = 12 in
            if int (length encoded) + header_size < int (length data) then
              case and_then (Int64_encode 0) (\<lambda>off.
                   and_then (mv_assign data 0 8 off) (\<lambda>d1.
                   and_then (Int32_encode (int (length encoded))) (\<lambda>sz.
                   and_then (mv_assign d1 8 12 sz) (\<lambda>d2.
                   mv_assign d2 12 (12 + int (length encoded)) encoded)))) of
                Inl e \<Rightarrow> (Inl e, w)
              | Inr d3 \<Rightarrow>
                  let b1 = (w_buffer w)\<lparr>bio_data := take 4 (bio_data (w_buffer w)) @ d3\<rparr>;
                      b2 = bio_seek b1 (16 + length encoded);
                      b3 = bio_truncate b2
                  in (Inr True, w\<lparr>w_buffer := b3\<rparr>)
            else (Inr False, w)
      else (Inr False, w))"

text \<open>\<open>close\<close> returns the buffer, rewound, with the batch size in its first four bytes.\<close>

definition close ::
  "env \<Rightarrow> LegacyRecordBatchWriter \<Rightarrow> (error + bytesio) \<times> LegacyRecordBatchWriter" where
  "close ev w =
     (case maybe_compress ev w of
        (Inl e, w1) \<Rightarrow> (Inl e, w1)
      | (Inr compressed, w1) \<Rightarrow>
          let buffer_len = bio_tell (w_buffer w1) - 4;
              b1 = bio_seek (w_buffer w1) 0
          in case Int32_encode buffer_len of
               Inl e \<Rightarrow> (Inl e, w1\<lparr>w_buffer := b1\<rparr>)
             | Inr sz \<Rightarrow>
                 let b2 = bio_seek (bio_write b1 sz) 0
                 in (Inr b2, w1\<lparr>w_buffer := b2\<rparr>))"

text \<open>A sequence of \<open>append\<close> calls on one writer: what each call returned and the writer
  after the last.\<close>

type_synonym append_args = "int \<times> int option \<times> bytes option \<times> bytes option \<times> headers"

fun appends ::
  "env \<Rightarrow> LegacyRecordBatchWriter \<Rightarrow> append_args list \<Rightarrow>
   (error + bool) list \<times> LegacyRecordBatchWriter" where
  "appends ev w [] = ([], w)"
| "appends ev w ((offset, timestamp, key, val, hdrs) # calls) =
     (case append ev w offset timestamp key val hdrs of (r, w') \<Rightarrow>
        (case appends ev w' calls of (rs, w'') \<Rightarrow> (r # rs, w'')))"

subsection \<open>LegacyRecordBatchReader and LegacyRecord\<close>

record LegacyRecord =
  rec_offset :: int
  rec_timestamp :: "int option"
  rec_timestamp_type :: "int option"
  rec_key :: "bytes option"
  rec_value :: "bytes option"
  rec_crc :: int

text \<open>\<open>__init__(self, buffer)\<close>: the message set is decoded from the buffer, it must not be
  empty, and its first entry is kept.\<close>

definition LegacyRecordBatchReader_init :: "env \<Rightarrow> bytesio \<Rightarrow> error + mset_item" where
  "LegacyRecordBatchReader_init ev buffer =
     and_then (MessageSet_decode ev (bio_read_all buffer)) (\<lambda>messages.
       case messages of [] \<Rightarrow> Inl AssertionError | m # ms \<Rightarrow> Inr m)"


text \<open>The \<open>for\<close> loop of \<open>__iter__\<close> over the inner message set of a compressed wrapper.
  The result is the records yielded and, when the generator stops by raising, the
  exception. An inner entry that is a partial message has no fields to read.\<close>

fun iter_inner :: "Message \<Rightarrow> int \<Rightarrow> mset_item list \<Rightarrow> LegacyRecord list \<times> error option" where
  "iter_inner msg absolute_base_offset [] = ([], None)"
| "iter_inner msg absolute_base_offset (PartialItem # rest) =
     (if msg_magic msg > 0 \<and> Message_timestamp_type msg = Some 0 then ([], Some AttributeError)
      else if absolute_base_offset \<ge> 0 then ([], Some TypeError)
      else ([], Some AttributeError))"
| "iter_inner msg absolute_base_offset (Item inner_offset inner_size inner_msg # rest) =
     (let inner_timestamp =
            (if msg_magic msg > 0 then
               (if Message_timestamp_type msg = Some 0 then msg_timestamp inner_msg
                else msg_timestamp msg)
             else Some 0);
          inner_offset' = (if absolute_base_offset \<ge> 0 then inner_offset + absolute_base_offset
                           else inner_offset);
          r = \<lparr>rec_offset = inner_offset', rec_timestamp = inner_timestamp,
               rec_timestamp_type = Message_timestamp_type msg,
               rec_key = msg_key inner_msg, rec_value = msg_value inner_msg,
               rec_crc = msg_crc inner_msg\<rparr>
      in case iter_inner msg absolute_base_offset rest of (rs, e) \<Rightarrow> (r # rs, e))"

text \<open>\<open>__iter__\<close>, run to its end.\<close>

definition iter_records :: "env \<Rightarrow> mset_item \<Rightarrow> LegacyRecord list \<times> error option" where
  "iter_records ev message =
     (case message of
        PartialItem \<Rightarrow> ([], Some AttributeError)
      | Item offset sz msg \<Rightarrow>
          if Message_is_compressed msg then
            (case Message_decompress ev msg of
               Inl e \<Rightarrow> ([], Some e)
             | Inr inner_mset \<Rightarrow>
                 if msg_magic msg > 0 then
                   (case inner_mset of
                      [] \<Rightarrow> ([], Some IndexError)
                    | _ \<Rightarrow>
                      (case last inner_mset of
                         PartialItem \<Rightarrow> ([], Some TypeError)
                       | Item last_offset s m \<Rightarrow>
                           iter_inner msg (offset - last_offset) inner_mset))
                 else iter_inner msg (- 1) inner_mset)
          else
            ([\<lparr>rec_offset = offset, rec_timestamp = msg_timestamp msg,
               rec_timestamp_type = Message_timestamp_type msg,
               rec_key = msg_key msg, rec_value = msg_value msg, rec_crc = msg_crc msg\<rparr>],
             None))"

subsection \<open>The legacy frame as specified\<close>

text \<open>The frame of section 4.3, written out for values that fit their fields:
  \<open>Offset:i64 | MessageSize:i32 | CRC:i32 | Magic:i8 | Attributes:i8 |
  [Timestamp:i64 if magic>=1] | KeyLen:i32 | Key | ValueLen:i32 | Value\<close>, with a null key
  or value encoded as length \<open>-1\<close> and the CRC taken over the bytes after the CRC field.\<close>

definition frame_Bytes :: "bytes option \<Rightarrow> bytes" where
  "frame_Bytes v = (case v of None \<Rightarrow> be_bytes 4 (- 1)
                    | Some b \<Rightarrow> be_bytes 4 (int (length b)) @ b)"

definition frame_body :: "int \<Rightarrow> int \<Rightarrow> int option \<Rightarrow> bytes option \<Rightarrow> bytes option \<Rightarrow> bytes" where
  "frame_body magic attributes timestamp key val =
     be_bytes 1 magic @ be_bytes 1 attributes
     @ (case timestamp of None \<Rightarrow> [] | Some t \<Rightarrow> be_bytes 8 t)
     @ frame_Bytes key @ frame_Bytes val"

definition frame_message ::
  "env \<Rightarrow> int \<Rightarrow> int \<Rightarrow> int option \<Rightarrow> bytes option \<Rightarrow> bytes option \<Rightarrow> bytes" where
  "frame_message ev magic attributes timestamp key val =
     (let body = frame_body magic attributes timestamp key val
      in be_bytes 4 (sint (crc32 ev body)) @ body)"

definition frame_entry :: "int \<Rightarrow> bytes \<Rightarrow> bytes" where
  "frame_entry offset message = be_bytes 8 offset @ be_bytes 4 (int (length message)) @ message"

text \<open>The timestamp a message written by \<open>append\<close> carries: none for magic 0, otherwise the
  one given, or the current time when none is given.\<close>

definition written_timestamp :: "env \<Rightarrow> int \<Rightarrow> int option \<Rightarrow> int option" where
  "written_timestamp ev magic timestamp =
     (if magic = 0 then None
      else Some (case timestamp of None \<Rightarrow> now_ms ev | Some t \<Rightarrow> t))"

text \<open>The arguments of \<open>append\<close> fit the fields of the frame: a 64-bit offset, for magic 1 a
  64-bit timestamp, and a key and a value whose message size fits an Int32.\<close>

definition fits_frame :: "env \<Rightarrow> int \<Rightarrow> int \<Rightarrow> int option \<Rightarrow> bytes option \<Rightarrow> bytes option \<Rightarrow> bool" where
  "fits_frame ev magic offset timestamp key val =
     (- (2 ^ 63) \<le> offset \<and> offset < 2 ^ 63
      \<and> (case written_timestamp ev magic timestamp of
            None \<Rightarrow> True | Some t \<Rightarrow> - (2 ^ 63) \<le> t \<and> t < 2 ^ 63)
      \<and> 14 + (case written_timestamp ev magic timestamp of None \<Rightarrow> 0 | Some t \<Rightarrow> 8)
          + bytes_len key + bytes_len val < 2 ^ 31)"

subsection \<open>An example environment\<close>

text \<open>A small environment to run the code on: the checksum adds the bytes up, the clock
  stands at 1500000000000, and the codecs are a run-length encoding, the two LZ4 variants
  told apart by a leading tag byte.\<close>

definition byte_sum :: "bytes \<Rightarrow> 32 word" where
  "byte_sum bs = foldl (\<lambda>a b. a + ucast b) 0 bs"

fun rle_push :: "byte \<Rightarrow> bytes \<Rightarrow> bytes" where
  "rle_push x (n # y # rest) =
     (if x = y \<and> n < 255 then (n + 1) # y # rest else 1 # x # n # y # rest)"
| "rle_push x enc = 1 # x # enc"

definition rle_encode :: "bytes \<Rightarrow> bytes" where
  "rle_encode d = foldr rle_push d []"

fun rle_decode :: "bytes \<Rightarrow> bytes option" where
  "rle_decode [] = Some []"
| "rle_decode [n] = None"
| "rle_decode (n # x # rest) =
     (case rle_decode rest of None \<Rightarrow> None | Some d \<Rightarrow> Some (replicate (unat n) x @ d))"

definition tagged_decode :: "byte \<Rightarrow> bytes \<Rightarrow> bytes option" where
  "tagged_decode t c = (case c of [] \<Rightarrow> None
                        | x # rest \<Rightarrow> if x = t then rle_decode rest else None)"

definition example_env :: env where
  "example_env =
     \<lparr>crc32 = byte_sum, now_ms = 1500000000000,
      gzip_encode = rle_encode, snappy_encode = rle_encode,
      lz4_encode = (\<lambda>d. 1 # rle_encode d), lz4_encode_old_kafka = (\<lambda>d. 0 # rle_encode d),
      gzip_decode = rle_decode, snappy_decode = rle_decode,
      lz4_decode = tagged_decode 1, lz4_decode_old_kafka = tagged_decode 0\<rparr>"

text \<open>The key \<open>b"test"\<close>, the value \<open>b"Super"\<close> and a value of forty bytes \<open>b"A"\<close>.\<close>

definition key_test :: "bytes option" where
  "key_test = Some [116, 101, 115, 116]"

definition value_Super :: "bytes option" where
  "value_Super = Some [83, 117, 112, 101, 114]"

definition value_A40 :: "bytes option" where
  "value_A40 = Some (replicate 40 65)"

text \<open>Two writers after two accepted \<open>append\<close> calls with offsets 0 and 1, key \<open>b"test"\<close>
  and the forty-byte value: magic 1 with gzip, and magic 0 with LZ4.\<close>

definition two_calls :: "append_args list" where
  "two_calls = [(0, Some 9999999, key_test, value_A40, None),
                (1, Some 9999999, key_test, value_A40, None)]"

definition writer_gzip_v1 :: LegacyRecordBatchWriter where
  "writer_gzip_v1 =
     snd (appends example_env (LegacyRecordBatchWriter_init 1 CODEC_GZIP 1000000) two_calls)"

definition writer_lz4_v0 :: LegacyRecordBatchWriter where
  "writer_lz4_v0 =
     snd (appends example_env (LegacyRecordBatchWriter_init 0 CODEC_LZ4 1000000) two_calls)"

text \<open>Reading a closed writer back: the entry the reader keeps, its offset and message, and
  the offsets of the inner message set of a compressed wrapper.\<close>

definition read_item :: "env \<Rightarrow> LegacyRecordBatchWriter \<Rightarrow> mset_item" where
  "read_item ev w =
     (case fst (close ev w) of
        Inl e \<Rightarrow> PartialItem
      | Inr buffer \<Rightarrow>
          (case LegacyRecordBatchReader_init ev buffer of
             Inl e \<Rightarrow> PartialItem
           | Inr message \<Rightarrow> message))"

fun item_offset :: "mset_item \<Rightarrow> int option" where
  "item_offset (Item offset sz msg) = Some offset"
| "item_offset PartialItem = None"

fun item_message :: "mset_item \<Rightarrow> Message option" where
  "item_message (Item offset sz msg) = Some msg"
| "item_message PartialItem = None"

definition inner_offsets :: "env \<Rightarrow> mset_item \<Rightarrow> int option list" where
  "inner_offsets ev message =
     (case item_message message of
        None \<Rightarrow> []
      | Some msg \<Rightarrow>
          (case Message_decompress ev msg of
             Inl e \<Rightarrow> []
           | Inr inner_mset \<Rightarrow> map item_offset inner_mset))"




text \<open>The inner message both \<open>two_calls\<close> records become under magic 1, and the gzip wrapper
  the magic-1 writer produces around them.\<close>

definition inner_message_v1 :: Message where
  "inner_message_v1 =
     \<lparr>msg_crc = 3522, msg_magic = 1, msg_attributes = 0, msg_timestamp = Some 9999999,
      msg_key = key_test, msg_value = value_A40, msg_validated_crc = Some 3522\<rparr>"

definition wrapper_gzip_v1 :: Message where
  "wrapper_gzip_v1 =
     \<lparr>msg_crc = 4334, msg_magic = 1, msg_attributes = CODEC_GZIP,
      msg_timestamp = Some 1500000000000, msg_key = None,
      msg_value = Some (rle_encode
         (frame_entry 0 (frame_message example_env 1 0 (Some 9999999) key_test value_A40)
          @ frame_entry 1 (frame_message example_env 1 0 (Some 9999999) key_test value_A40))),
      msg_validated_crc = Some 4334\<rparr>"


text \<open>Closing a writer, constructing the reader on the returned buffer and iterating it to
  the end: the records yielded and the exception that ended the iteration, if any.\<close>

definition read_back ::
  "env \<Rightarrow> LegacyRecordBatchWriter \<Rightarrow> error + (LegacyRecord list \<times> error option)" where
  "read_back ev w =
     (case fst (close ev w) of
        Inl e \<Rightarrow> Inl e
      | Inr buffer \<Rightarrow>
          and_then (LegacyRecordBatchReader_init ev buffer) (\<lambda>message.
            Inr (iter_records ev message)))"

text \<open>The magic-0 writer without compression after the two calls of \<open>two_calls\<close>.\<close>

definition writer_plain_v0 :: LegacyRecordBatchWriter where
  "writer_plain_v0 =
     snd (appends example_env (LegacyRecordBatchWriter_init 0 0 1000000) two_calls)"

section \<open>Properties of the batch iterator\<close>

lemma py_slice_in_range:
  "0 \<le> a \<Longrightarrow> a \<le> b \<Longrightarrow> b \<le> int (length xs) \<Longrightarrow>
   py_slice xs a b = take (nat (b - a)) (drop (nat a) xs)"
  by (simp add: py_slice_def py_clip_def Let_def min_def)


lemma split_loop_Inr:
  "0 \<le> c \<Longrightarrow> c \<le> int (length bs) \<Longrightarrow> split_loop bs c r sl = Inr (sl', r') \<Longrightarrow>
   \<exists>new. sl' = sl @ new \<and> slices_from bs c new \<and> (\<forall>s\<in>set new. 26 \<le> length s)
      \<and> int (length (concat new)) \<le> int (length bs) - c
      \<and> concat new = take (length (concat new)) (drop (nat c) bs)"
proof (induction bs c r sl rule: split_loop.induct)
  case (1 bytes_data next_slice remaining slices)
  show ?case
  proof (cases "next_slice = int (length bytes_data)")
    case True
    with "1.prems" show ?thesis by (simp add: split_loop.simps)
  next
    case ne: False
    let ?rem = "int (length bytes_data) - next_slice"
    show ?thesis
    proof (cases "?rem < LOG_OVERHEAD")
      case True
      with ne "1.prems" show ?thesis by (simp add: split_loop.simps[of bytes_data next_slice])
    next
      case big: False
      show ?thesis
      proof (cases "unpack_from 4 bytes_data (next_slice + LENGTH_OFFSET)")
        case (Inl e)
        with ne big "1.prems" show ?thesis by (simp add: split_loop.simps[of bytes_data next_slice])
      next
        case (Inr len)
        show ?thesis
        proof (cases "len < RECORD_OVERHEAD_V0")
          case True
          with ne big Inr "1.prems" show ?thesis by (simp add: split_loop.simps[of bytes_data next_slice])
        next
          case ok: False
          let ?e = "next_slice + len + LOG_OVERHEAD"
          show ?thesis
          proof (cases "?e > int (length bytes_data)")
            case True
            with ne big Inr ok "1.prems" show ?thesis by (simp add: split_loop.simps[of bytes_data next_slice])
          next
            case fits: False
            let ?s = "py_slice bytes_data next_slice ?e"
            from ne big Inr ok fits "1.prems"(3)
            have rec: "split_loop bytes_data ?e ?rem (slices @ [?s]) = Inr (sl', r')"
              by (simp add: split_loop.simps[of bytes_data next_slice] Let_def)
            have e0: "0 \<le> ?e" using "1.prems"(1) ok by (simp add: RECORD_OVERHEAD_V0_def LOG_OVERHEAD_def)
            have e1: "?e \<le> int (length bytes_data)" using fits by simp
            from "1.IH"[OF ne refl _ Inr ok refl fits e0 e1 rec] ne big
            obtain new where new: "sl' = (slices @ [?s]) @ new" "slices_from bytes_data ?e new"
               "\<forall>s\<in>set new. 26 \<le> length s"
               "int (length (concat new)) \<le> int (length bytes_data) - ?e"
               "concat new = take (length (concat new)) (drop (nat ?e) bytes_data)"
              by auto
            have ls: "length ?s = nat (len + 12)" and sv: "?s = take (nat (len + 12)) (drop (nat next_slice) bytes_data)"
              using "1.prems"(1) ok fits
              by (simp_all add: py_slice_in_range RECORD_OVERHEAD_V0_def LOG_OVERHEAD_def)
            have "slices_from bytes_data next_slice (?s # new)"
              using Inr new(2) by simp
            moreover have "\<forall>s\<in>set (?s # new). 26 \<le> length s"
              using new(3) ls ok by (simp add: RECORD_OVERHEAD_V0_def)
            moreover have "int (length (concat (?s # new))) \<le> int (length bytes_data) - next_slice"
              using new(4) ls ok by (simp add: RECORD_OVERHEAD_V0_def LOG_OVERHEAD_def)
            moreover have "concat (?s # new) = take (length (concat (?s # new))) (drop (nat next_slice) bytes_data)"
            proof -
              have "nat ?e = nat (len + 12) + nat next_slice"
                using "1.prems"(1) ok by (simp add: RECORD_OVERHEAD_V0_def LOG_OVERHEAD_def)
              then have d: "drop (nat ?e) bytes_data = drop (nat (len + 12)) (drop (nat next_slice) bytes_data)"
                by (simp only: drop_drop)
              have "take (length ?s + length (concat new)) (drop (nat next_slice) bytes_data)
                  = take (length ?s) (drop (nat next_slice) bytes_data) @ take (length (concat new)) (drop (length ?s) (drop (nat next_slice) bytes_data))"
                by (simp only: take_add)
              also have "\<dots> = ?s @ concat new"
                using new(5) d ls sv by simp
              finally show ?thesis by simp
            qed
            moreover have "sl' = slices @ (?s # new)" using new(1) by simp
            ultimately show ?thesis by blast
          qed
        qed
      qed
    qed
  qed
qed

lemma split_slices_Inr:
  assumes "split_slices bs = Inr (sl, r)"
  shows "slices_from bs 0 sl" and "\<forall>s\<in>set sl. 26 \<le> length s"
    and "concat sl = take (length (concat sl)) bs"
  using split_loop_Inr[of 0 bs 0 "[]" sl r] assms
  by (auto simp: split_slices_def)

lemma unpack_magic:
  "16 < length b \<Longrightarrow> unpack_from (Suc 0) b MAGIC_OFFSET = Inr (be_sint [b ! 16])"
  by (simp add: unpack_from_def MAGIC_OFFSET_def Let_def take_Suc_conv_app_nth
      Cons_nth_drop_Suc[symmetric])

lemma next_batch_at:
  assumes "mr_next_slice s = int k" "k < length (mr_slices s)" "16 < length (mr_slices s ! k)"
  shows "next_batch s = (Inr (Some (reader_for (mr_slices s ! k))), s\<lparr>mr_next_slice := int k + 1\<rparr>)"
  using assms
  by (simp add: next_batch_def has_next_def py_index_def Let_def unpack_magic reader_for_def)

lemma next_batch_done:
  "\<not> has_next s \<Longrightarrow> next_batch s = (Inr None, s)"
  by (simp add: next_batch_def)


lemma MemoryRecords_init_Inr:
  "MemoryRecords_init bs = Inr s \<Longrightarrow>
   \<exists>sl r. split_slices bs = Inr (sl, r) \<and>
     s = \<lparr>mr_buffer = bs, mr_slices = sl, mr_remaining = r, mr_next_slice = 0\<rparr>"
  by (auto simp: MemoryRecords_init_def split: sum.splits prod.splits)

lemma mr_reachable_inv:
  "mr_reachable bs s \<Longrightarrow>
   \<exists>s0 k. MemoryRecords_init bs = Inr s0 \<and> k \<le> length (mr_slices s0) \<and>
      s = s0\<lparr>mr_next_slice := int k\<rparr>"
proof (induction rule: mr_reachable.induct)
  case (mr_init s)
  then show ?case by (intro exI[of _ s] exI[of _ 0]) (auto dest: MemoryRecords_init_Inr)
next
  case (mr_step s)
  then obtain s0 k where s0: "MemoryRecords_init bs = Inr s0" "k \<le> length (mr_slices s0)"
    "s = s0\<lparr>mr_next_slice := int k\<rparr>" by blast
  from MemoryRecords_init_Inr[OF s0(1)] obtain sl r where sp: "split_slices bs = Inr (sl, r)"
    and sl: "mr_slices s0 = sl" by auto
  show ?case
  proof (cases "k < length (mr_slices s0)")
    case True
    then have "26 \<le> length (mr_slices s ! k)"
      using split_slices_Inr(2)[OF sp] sl s0(3) by simp
    then have "next_batch s = (Inr (Some (reader_for (mr_slices s ! k))), s\<lparr>mr_next_slice := int k + 1\<rparr>)"
      using True s0(3) by (intro next_batch_at) auto
    then have "snd (next_batch s) = s0\<lparr>mr_next_slice := int (Suc k)\<rparr>"
      using s0(3) by simp
    then show ?thesis using s0(1) True by (intro exI[of _ s0] exI[of _ "Suc k"]) simp
  next
    case False
    then have "\<not> has_next s" using s0(2,3) by (simp add: has_next_def)
    then have "snd (next_batch s) = s" by (simp add: next_batch_done)
    then show ?thesis using s0 by auto
  qed
qed

text \<open>Claim C10. In every state a \<open>MemoryRecords\<close> object can reach, the slice cursor lies
  between 0 and the number of slices; \<open>has_next\<close> is true exactly when the cursor is below
  the number of slices; while it is true, \<open>next_batch\<close> returns a batch and advances the
  cursor by exactly one, changing nothing else; once it is false, \<open>next_batch\<close> returns
  \<open>None\<close> and leaves the whole state unchanged. Over the empty buffer there are no slices
  and \<open>size_in_bytes\<close> and \<open>valid_bytes\<close> are both 0.\<close>

theorem C10_cursor_invariant:
  "(mr_reachable bs s \<longrightarrow>
      0 \<le> mr_next_slice s \<and> mr_next_slice s \<le> int (length (mr_slices s))
    \<and> (has_next s \<longleftrightarrow> mr_next_slice s < int (length (mr_slices s)))
    \<and> (has_next s \<longrightarrow>
          (\<exists>b. next_batch s = (Inr (Some b), s\<lparr>mr_next_slice := mr_next_slice s + 1\<rparr>)))
    \<and> (\<not> has_next s \<longrightarrow> next_batch s = (Inr None, s)))
   \<and> (\<exists>e. MemoryRecords_init [] = Inr e \<and> mr_slices e = [] \<and> \<not> has_next e
          \<and> next_batch e = (Inr None, e) \<and> size_in_bytes e = 0 \<and> valid_bytes e = 0)"
proof (intro conjI impI)
  assume r: "mr_reachable bs s"
  from mr_reachable_inv[OF r] obtain s0 k where s0: "MemoryRecords_init bs = Inr s0"
    "k \<le> length (mr_slices s0)" "s = s0\<lparr>mr_next_slice := int k\<rparr>" by blast
  from MemoryRecords_init_Inr[OF s0(1)] obtain sl r where sp: "split_slices bs = Inr (sl, r)"
    and sl: "mr_slices s0 = sl" by auto
  show "0 \<le> mr_next_slice s" using s0 by simp
  show "mr_next_slice s \<le> int (length (mr_slices s))" using s0 by simp
  show "has_next s \<longleftrightarrow> mr_next_slice s < int (length (mr_slices s))"
    by (simp add: has_next_def)
  show "\<exists>b. next_batch s = (Inr (Some b), s\<lparr>mr_next_slice := mr_next_slice s + 1\<rparr>)"
    if "has_next s"
  proof -
    from that have k: "k < length (mr_slices s)" using s0(3) by (simp add: has_next_def)
    then have "26 \<le> length (mr_slices s ! k)"
      using split_slices_Inr(2)[OF sp] sl s0(3) by simp
    then have "next_batch s = (Inr (Some (reader_for (mr_slices s ! k))), s\<lparr>mr_next_slice := int k + 1\<rparr>)"
      using k s0(3) by (intro next_batch_at) auto
    then show ?thesis using s0(3) by simp
  qed
  show "next_batch s = (Inr None, s)" if "\<not> has_next s"
    using that by (rule next_batch_done)
next
  have "MemoryRecords_init [] = Inr \<lparr>mr_buffer = [], mr_slices = [], mr_remaining = 0, mr_next_slice = 0\<rparr>"
    by (simp add: MemoryRecords_init_def split_slices_def split_loop.simps)
  then show "\<exists>e. MemoryRecords_init [] = Inr e \<and> mr_slices e = [] \<and> \<not> has_next e
          \<and> next_batch e = (Inr None, e) \<and> size_in_bytes e = 0 \<and> valid_bytes e = 0"
    by (simp add: has_next_def next_batch_def size_in_bytes_def valid_bytes_def)
qed

theorem C10_cursor_invariant_witness:
  "mr_reachable (batch_v2 @ batch_v1)
     \<lparr>mr_buffer = batch_v2 @ batch_v1, mr_slices = [batch_v2, batch_v1], mr_remaining = 27, mr_next_slice = 1\<rparr>
   \<and> has_next \<lparr>mr_buffer = batch_v2 @ batch_v1, mr_slices = [batch_v2, batch_v1], mr_remaining = 27, mr_next_slice = 1\<rparr>
   \<and> (\<exists>b. next_batch \<lparr>mr_buffer = batch_v2 @ batch_v1, mr_slices = [batch_v2, batch_v1], mr_remaining = 27, mr_next_slice = 1\<rparr>
        = (Inr (Some b), \<lparr>mr_buffer = batch_v2 @ batch_v1, mr_slices = [batch_v2, batch_v1], mr_remaining = 27, mr_next_slice = 2\<rparr>))"
proof -
  let ?s0 = "\<lparr>mr_buffer = batch_v2 @ batch_v1, mr_slices = [batch_v2, batch_v1], mr_remaining = 27, mr_next_slice = 0\<rparr>"
  let ?s1 = "\<lparr>mr_buffer = batch_v2 @ batch_v1, mr_slices = [batch_v2, batch_v1], mr_remaining = 27, mr_next_slice = 1\<rparr>"
  have i: "MemoryRecords_init (batch_v2 @ batch_v1) = Inr ?s0"
    by code_simp
  have n: "snd (next_batch ?s0) = ?s1"
    by code_simp
  have r: "mr_reachable (batch_v2 @ batch_v1) ?s1"
    using mr_step[OF mr_init[OF i]] n by simp
  have h: "has_next ?s1" by (simp add: has_next_def)
  show ?thesis using C10_cursor_invariant[of "batch_v2 @ batch_v1" ?s1] r h by simp
qed

lemma split_loop_unfold:
  "split_loop bs c r sl =
     (if c = int (length bs) then Inr (sl, r)
      else if int (length bs) - c < 12 then Inr (sl, int (length bs) - c)
      else case unpack_from 4 bs (c + 8) of
             Inl e \<Rightarrow> Inl e
           | Inr len \<Rightarrow>
               if len < 14 then Inl CorruptRecordException
               else if c + len + 12 > int (length bs) then Inr (sl, int (length bs) - c)
               else split_loop bs (c + len + 12) (int (length bs) - c)
                      (sl @ [py_slice bs c (c + len + 12)]))"
  by (subst split_loop.simps)
     (simp add: LOG_OVERHEAD_def LENGTH_OFFSET_def RECORD_OVERHEAD_V0_def Let_def
        split: sum.splits)

lemma batch_boundary_range:
  "batch_boundary bs c \<Longrightarrow> 0 \<le> c \<and> c \<le> int (length bs)"
  by (induction rule: batch_boundary.induct) auto

lemma unpack_from_in_range:
  "0 \<le> c \<Longrightarrow> 12 \<le> int (length bs) - c \<Longrightarrow> \<exists>len. unpack_from 4 bs (c + 8) = Inr len"
  by (simp add: unpack_from_def Let_def)

lemma split_loop_reaches:
  "batch_boundary bs c \<Longrightarrow> \<exists>r sl. split_loop bs 0 0 [] = split_loop bs c r sl"
proof (induction rule: batch_boundary.induct)
  case bb_start
  show ?case by blast
next
  case (bb_next c len)
  then obtain r sl where "split_loop bs 0 0 [] = split_loop bs c r sl" by blast
  also have "split_loop bs c r sl =
     split_loop bs (c + len + 12) (int (length bs) - c) (sl @ [py_slice bs c (c + len + 12)])"
    using bb_next.hyps by (subst split_loop_unfold) auto
  finally show ?case by blast
qed

lemma split_loop_Inl:
  "batch_boundary bs c \<Longrightarrow> split_loop bs c r sl = Inl e \<Longrightarrow>
   e = CorruptRecordException \<and>
   (\<exists>c' len. batch_boundary bs c' \<and> 12 \<le> int (length bs) - c' \<and>
      unpack_from 4 bs (c' + 8) = Inr len \<and> len < 14)"
proof (induction bs c r sl rule: split_loop.induct)
  case (1 bs c r sl)
  note range = batch_boundary_range[OF "1.prems"(1)]
  from "1.prems"(2) have ne: "c \<noteq> int (length bs)" and big: "\<not> int (length bs) - c < 12"
    by (subst (asm) split_loop_unfold, simp split: if_splits)+
  from unpack_from_in_range[of c bs] range big obtain len
    where len: "unpack_from 4 bs (c + 8) = Inr len" by auto
  show ?case
  proof (cases "len < 14")
    case True
    moreover have "e = CorruptRecordException"
      using "1.prems"(2) ne big len True by (subst (asm) split_loop_unfold) simp
    ultimately show ?thesis using "1.prems"(1) big len by auto
  next
    case False
    have fits: "\<not> c + len + 12 > int (length bs)"
      using "1.prems"(2) ne big len False by (subst (asm) split_loop_unfold) (simp split: if_splits)
    have rec: "split_loop bs (c + len + 12) (int (length bs) - c)
                 (sl @ [py_slice bs c (c + len + 12)]) = Inl e"
      using "1.prems"(2) ne big len False fits by (subst (asm) split_loop_unfold) simp
    have bb: "batch_boundary bs (c + len + 12)"
      using "1.prems"(1) big len False fits by (intro bb_next) auto
    have ne': "c \<noteq> int (length bs)" by fact
    have r0: "\<not> (int (length bs) - c \<noteq> 0 \<and> int (length bs) - c < LOG_OVERHEAD)"
      using big by (simp add: LOG_OVERHEAD_def)
    have l0: "unpack_from 4 bs (c + LENGTH_OFFSET) = Inr len" using len by (simp add: LENGTH_OFFSET_def)
    have l1: "\<not> len < RECORD_OVERHEAD_V0" using False by (simp add: RECORD_OVERHEAD_V0_def)
    have f0: "\<not> c + len + LOG_OVERHEAD > int (length bs)" using fits by (simp add: LOG_OVERHEAD_def)
    from "1.IH"[OF ne' refl r0 l0 l1 refl f0] bb rec
    show ?thesis by (simp add: LOG_OVERHEAD_def)
  qed
qed

text \<open>Claim C4. Splitting raises \<open>CorruptRecordException\<close> exactly when some batch
  boundary has at least the 12-byte header remaining and declares an Int32 length below
  the minimum record overhead of 14, and it raises nothing else. Truncation is not an
  error: at a batch boundary with fewer than 12 bytes remaining, or with a declared length
  that reaches past the end of the buffer, splitting stops and \<open>remaining\<close> is the number
  of bytes from that boundary to the end.\<close>

theorem C4_corrupt_iff_short_length:
  "(split_slices bs = Inl CorruptRecordException \<longleftrightarrow>
      (\<exists>c len. batch_boundary bs c \<and> 12 \<le> int (length bs) - c \<and>
         unpack_from 4 bs (c + 8) = Inr len \<and> len < 14))
   \<and> (\<forall>e. split_slices bs = Inl e \<longrightarrow> e = CorruptRecordException)
   \<and> (\<forall>c. batch_boundary bs c \<and> 0 < int (length bs) - c \<and> int (length bs) - c < 12 \<longrightarrow>
         (\<exists>sl. split_slices bs = Inr (sl, int (length bs) - c)))
   \<and> (\<forall>c len. batch_boundary bs c \<and> 12 \<le> int (length bs) - c \<and>
         unpack_from 4 bs (c + 8) = Inr len \<and> 14 \<le> len \<and> int (length bs) - c < len + 12 \<longrightarrow>
         (\<exists>sl. split_slices bs = Inr (sl, int (length bs) - c)))"
proof (intro conjI allI impI iffI)
  assume "split_slices bs = Inl CorruptRecordException"
  then show "\<exists>c len. batch_boundary bs c \<and> 12 \<le> int (length bs) - c \<and>
         unpack_from 4 bs (c + 8) = Inr len \<and> len < 14"
    using split_loop_Inl[OF bb_start, of bs 0 "[]"] by (simp add: split_slices_def)
next
  assume "\<exists>c len. batch_boundary bs c \<and> 12 \<le> int (length bs) - c \<and>
         unpack_from 4 bs (c + 8) = Inr len \<and> len < 14"
  then obtain c len where h: "batch_boundary bs c" "12 \<le> int (length bs) - c"
    "unpack_from 4 bs (c + 8) = Inr len" "len < 14" by blast
  from split_loop_reaches[OF h(1)] obtain r sl
    where "split_loop bs 0 0 [] = split_loop bs c r sl" by blast
  also have "\<dots> = Inl CorruptRecordException"
    using h by (subst split_loop_unfold) auto
  finally show "split_slices bs = Inl CorruptRecordException" by (simp add: split_slices_def)
next
  fix e assume "split_slices bs = Inl e"
  then show "e = CorruptRecordException"
    using split_loop_Inl[OF bb_start, of bs 0 "[]"] by (simp add: split_slices_def)
next
  fix c assume h: "batch_boundary bs c \<and> 0 < int (length bs) - c \<and> int (length bs) - c < 12"
  from split_loop_reaches obtain r sl
    where "split_loop bs 0 0 [] = split_loop bs c r sl" using h by blast
  also have "\<dots> = Inr (sl, int (length bs) - c)"
    using h by (subst split_loop_unfold) auto
  finally show "\<exists>sl. split_slices bs = Inr (sl, int (length bs) - c)"
    by (auto simp: split_slices_def)
next
  fix c len assume h: "batch_boundary bs c \<and> 12 \<le> int (length bs) - c \<and>
         unpack_from 4 bs (c + 8) = Inr len \<and> 14 \<le> len \<and> int (length bs) - c < len + 12"
  from split_loop_reaches obtain r sl
    where "split_loop bs 0 0 [] = split_loop bs c r sl" using h by blast
  also have "\<dots> = Inr (sl, int (length bs) - c)"
    using h by (subst split_loop_unfold) auto
  finally show "\<exists>sl. split_slices bs = Inr (sl, int (length bs) - c)"
    by (auto simp: split_slices_def)
qed
theorem C4_corrupt_iff_short_length_witness:
  "batch_boundary (batch_v2 @ [0,0,0,0,0,0,0,0, 0,0,0,13]) 26
   \<and> unpack_from 4 (batch_v2 @ [0,0,0,0,0,0,0,0, 0,0,0,13]) (26 + 8) = Inr 13
   \<and> split_slices (batch_v2 @ [0,0,0,0,0,0,0,0, 0,0,0,13]) = Inl CorruptRecordException
   \<and> batch_boundary (batch_v2 @ take 20 batch_v1) 26
   \<and> unpack_from 4 (batch_v2 @ take 20 batch_v1) (26 + 8) = Inr 15
   \<and> (\<exists>sl. split_slices (batch_v2 @ take 20 batch_v1) = Inr (sl, 20))"
proof -
  let ?X = "batch_v2 @ [0,0,0,0,0,0,0,0, 0,0,0,13]"
  let ?Y = "batch_v2 @ take 20 batch_v1"
  have ux0: "unpack_from 4 ?X (0 + 8) = Inr 14" and ux: "unpack_from 4 ?X (26 + 8) = Inr 13"
    and uy0: "unpack_from 4 ?Y (0 + 8) = Inr 14" and uy: "unpack_from 4 ?Y (26 + 8) = Inr 15"
    by code_simp+
  have "batch_boundary ?X (0 + 14 + 12)"
    by (rule bb_next[OF bb_start _ ux0]) (simp_all add: batch_v2_def)
  then have bx: "batch_boundary ?X 26" by simp
  have "batch_boundary ?Y (0 + 14 + 12)"
    by (rule bb_next[OF bb_start _ uy0]) (simp_all add: batch_v2_def batch_v1_def)
  then have by': "batch_boundary ?Y 26" by simp
  have cx: "split_slices ?X = Inl CorruptRecordException"
  proof -
    have "12 \<le> int (length ?X) - 26" by (simp add: batch_v2_def)
    with bx ux have "\<exists>c len. batch_boundary ?X c \<and> 12 \<le> int (length ?X) - c \<and>
         unpack_from 4 ?X (c + 8) = Inr len \<and> len < 14"
      by (intro exI[of _ 26] exI[of _ 13]) simp
    then show ?thesis by (simp only: C4_corrupt_iff_short_length[of ?X, THEN conjunct1])
  qed
  have cy: "\<exists>sl. split_slices ?Y = Inr (sl, 20)"
  proof -
    have l: "int (length ?Y) - 26 = 20" by (simp add: batch_v2_def batch_v1_def)
    have "batch_boundary ?Y 26 \<and> 12 \<le> int (length ?Y) - 26 \<and>
         unpack_from 4 ?Y (26 + 8) = Inr 15 \<and> (14::int) \<le> 15 \<and> int (length ?Y) - 26 < 15 + 12"
      using by' uy l by simp
    with C4_corrupt_iff_short_length[of ?Y, THEN conjunct2, THEN conjunct2, THEN conjunct2, THEN spec, THEN spec, THEN mp]
    have "\<exists>sl. split_slices ?Y = Inr (sl, int (length ?Y) - 26)" .
    then show ?thesis by (simp only: l)
  qed
  show ?thesis using bx ux cx by' uy cy by blast
qed





text \<open>Claim C2, evaluated on a buffer that is exactly one whole 26-byte batch: the loop
  leaves \<open>remaining\<close> at the value set when the last batch was entered, so
  \<open>remaining\<close> is 26 and \<open>valid_bytes\<close> is 0, although every byte was consumed into the
  one slice.\<close>

theorem C2_whole_batch_remaining:
  "split_slices batch_v2 = Inr ([batch_v2], 26)
   \<and> MemoryRecords_init batch_v2
       = Inr \<lparr>mr_buffer = batch_v2, mr_slices = [batch_v2], mr_remaining = 26, mr_next_slice = 0\<rparr>
   \<and> size_in_bytes \<lparr>mr_buffer = batch_v2, mr_slices = [batch_v2], mr_remaining = 26, mr_next_slice = 0\<rparr> = 26
   \<and> valid_bytes \<lparr>mr_buffer = batch_v2, mr_slices = [batch_v2], mr_remaining = 26, mr_next_slice = 0\<rparr> = 0"
  by code_simp

section \<open>Properties of the legacy writer and reader\<close>

subsection \<open>Integer encodings\<close>

lemma length_be_bytes [simp]: "length (be_bytes n v) = n"
  by (induction n arbitrary: v) auto





lemma pack_in_range: "- (2 ^ (8 * n - 1)) \<le> v \<Longrightarrow> v < 2 ^ (8 * n - 1) \<Longrightarrow> pack n v = Inr (be_bytes n v)"
  by (simp add: pack_def)

subsection \<open>Encoding messages and appending\<close>

lemma and_then_Inr [simp]: "and_then (Inr x) f = f x"
  by (simp add: and_then_def)

lemma and_then_Inl [simp]: "and_then (Inl e) f = Inl e"
  by (simp add: and_then_def)

lemma bio_write_at_end:
  "bio_pos b = length (bio_data b) \<Longrightarrow>
   bio_write b bs = \<lparr>bio_data = bio_data b @ bs, bio_pos = length (bio_data b) + length bs\<rparr>"
  by (simp add: bio_write_def Let_def)

lemma Bytes_encode_fits:
  "bytes_len v < 2 ^ 31 \<Longrightarrow> Bytes_encode v = Inr (frame_Bytes v)"
  by (cases v) (simp_all add: Bytes_encode_def frame_Bytes_def Int32_encode_def pack_def bytes_len_def)

lemma length_frame_Bytes: "int (length (frame_Bytes v)) = 4 + bytes_len v"
  by (cases v) (simp_all add: frame_Bytes_def bytes_len_def)

lemma bytes_len_nonneg: "0 \<le> bytes_len v"
  by (cases v) (simp_all add: bytes_len_def)

lemma length_frame_body:
  "int (length (frame_body magic attributes timestamp key val)) =
     10 + (case timestamp of None \<Rightarrow> 0 | Some t \<Rightarrow> 8) + bytes_len key + bytes_len val"
  by (cases timestamp) (simp_all add: frame_body_def length_frame_Bytes)

lemma length_frame_message:
  "int (length (frame_message ev magic attributes timestamp key val)) =
     14 + (case timestamp of None \<Rightarrow> 0 | Some t \<Rightarrow> 8) + bytes_len key + bytes_len val"
  using length_frame_body[of magic attributes timestamp key val]
  by (simp add: frame_message_def Let_def)

lemma sint32_range: "- (2 ^ 31) \<le> sint (w :: 32 word) \<and> sint w < 2 ^ 31"
  using sint_ge[of w] sint_lt[of w] by simp

text \<open>Encoding a message whose fields fit gives the specified frame.\<close>

lemma Message_encode_frame:
  assumes "msg_magic m = 0 \<or> msg_magic m = 1"
    and "msg_magic m = 0 \<longrightarrow> msg_timestamp m = None"
    and "msg_magic m = 1 \<longrightarrow> (\<exists>t. msg_timestamp m = Some t \<and> - (2 ^ 63) \<le> t \<and> t < 2 ^ 63)"
    and "- 128 \<le> msg_attributes m" "msg_attributes m < 128"
    and "- (2 ^ 31) \<le> msg_crc m" "msg_crc m < 2 ^ 31"
    and "bytes_len (msg_key m) < 2 ^ 31" "bytes_len (msg_value m) < 2 ^ 31"
  shows "Message_encode ev m =
     Inr (frame_message ev (msg_magic m) (msg_attributes m) (msg_timestamp m) (msg_key m) (msg_value m))"
proof -
  have body: "Message_body m =
      Inr (frame_body (msg_magic m) (msg_attributes m) (msg_timestamp m) (msg_key m) (msg_value m))"
    using assms
    by (auto simp: Message_body_def frame_body_def Int8_encode_def Int64_encode_def pack_def
        Bytes_encode_fits)
  show ?thesis
    using assms(1,6,7) sint32_range
    by (auto simp: Message_encode_def body frame_message_def Let_def Int32_encode_def pack_def)
qed

lemma append_preserves:
  assumes "bio_pos (w_buffer w) = length (bio_data (w_buffer w))"
  shows "w_magic (snd (append ev w offset timestamp key val hdrs)) = w_magic w"
    and "w_compression_type (snd (append ev w offset timestamp key val hdrs)) = w_compression_type w"
    and "w_batch_size (snd (append ev w offset timestamp key val hdrs)) = w_batch_size w"
    and "bio_pos (w_buffer (snd (append ev w offset timestamp key val hdrs)))
         = length (bio_data (w_buffer (snd (append ev w offset timestamp key val hdrs))))"
    and "\<exists>new. bio_data (w_buffer (snd (append ev w offset timestamp key val hdrs)))
         = bio_data (w_buffer w) @ new"
  using assms
  by (auto simp: append_def Let_def bio_write_at_end split: sum.splits prod.splits)

lemma init_inv:
  "bio_pos (w_buffer (LegacyRecordBatchWriter_init magic ct bsz))
     = length (bio_data (w_buffer (LegacyRecordBatchWriter_init magic ct bsz)))"
  "bio_data (w_buffer (LegacyRecordBatchWriter_init magic ct bsz)) = be_bytes 4 0"
  "w_magic (LegacyRecordBatchWriter_init magic ct bsz) = magic"
  "w_compression_type (LegacyRecordBatchWriter_init magic ct bsz) = ct"
  "w_batch_size (LegacyRecordBatchWriter_init magic ct bsz) = bsz"
  "w_first_message (LegacyRecordBatchWriter_init magic ct bsz)"
  by (simp_all add: LegacyRecordBatchWriter_init_def bio_write_def bio_new_def Let_def)

lemma appends_preserves:
  assumes "bio_pos (w_buffer w) = length (bio_data (w_buffer w))"
  shows "w_magic (snd (appends ev w calls)) = w_magic w
       \<and> w_compression_type (snd (appends ev w calls)) = w_compression_type w
       \<and> w_batch_size (snd (appends ev w calls)) = w_batch_size w
       \<and> bio_pos (w_buffer (snd (appends ev w calls)))
           = length (bio_data (w_buffer (snd (appends ev w calls))))
       \<and> (\<exists>new. bio_data (w_buffer (snd (appends ev w calls))) = bio_data (w_buffer w) @ new)"
  using assms
proof (induction calls arbitrary: w)
  case Nil
  then show ?case by simp
next
  case (Cons c calls)
  obtain offset timestamp key val hdrs where c: "c = (offset, timestamp, key, val, hdrs)"
    by (cases c) auto
  let ?w' = "snd (append ev w offset timestamp key val hdrs)"
  note p = append_preserves[OF Cons.prems, of ev offset timestamp key val hdrs]
  have s: "snd (appends ev w (c # calls)) = snd (appends ev ?w' calls)"
    by (simp add: c split: prod.splits)
  from Cons.IH[OF p(4)] p(1,2,3,5) show ?case
    unfolding s by auto
qed

lemma append_eq:
  assumes inv: "bio_pos (w_buffer w) = length (bio_data (w_buffer w))"
    and magic: "w_magic w = 0 \<or> w_magic w = 1"
    and hdrs: "hdrs = None \<or> hdrs = Some []"
    and fits: "fits_frame ev (w_magic w) offset timestamp key val"
  shows "append ev w offset timestamp key val hdrs =
     (if is_full w key val then (Inr False, w)
      else (Inr True,
            w\<lparr>w_first_message := False,
              w_buffer := \<lparr>bio_data = bio_data (w_buffer w)
                            @ frame_entry offset
                                (frame_message ev (w_magic w) 0
                                   (written_timestamp ev (w_magic w) timestamp) key val),
                          bio_pos = length (bio_data (w_buffer w))
                            + length (frame_entry offset
                                (frame_message ev (w_magic w) 0
                                   (written_timestamp ev (w_magic w) timestamp) key val))\<rparr>\<rparr>))"
proof (cases "is_full w key val")
  case True
  then show ?thesis using hdrs by (auto simp: append_def)
next
  case False
  let ?ts = "written_timestamp ev (w_magic w) timestamp"
  let ?mi = "if w_magic w = 0 then Message_init ev val key (w_magic w) 0 0 None
             else Message_init ev val key (w_magic w) 0 0 timestamp"
  let ?m = "\<lparr>msg_crc = 0, msg_magic = w_magic w, msg_attributes = 0, msg_timestamp = ?ts,
             msg_key = key, msg_value = val, msg_validated_crc = None\<rparr>"
  let ?fm = "frame_message ev (w_magic w) 0 ?ts key val"
  have kl: "bytes_len key < 2 ^ 31" "bytes_len val < 2 ^ 31"
    using fits bytes_len_nonneg[of key] bytes_len_nonneg[of val]
    by (auto simp: fits_frame_def split: option.splits)
  have mi: "?mi = Inr ?m"
    using magic by (cases timestamp) (auto simp: Message_init_def written_timestamp_def)
  have enc: "Message_encode ev ?m = Inr ?fm"
    using Message_encode_frame[of ?m ev] magic fits kl
    by (auto simp: fits_frame_def written_timestamp_def split: option.splits if_splits)
  have len: "int (length ?fm) < 2 ^ 31"
    using length_frame_message[of ev "w_magic w" 0 ?ts key val] fits
    by (auto simp: fits_frame_def split: option.splits)
  have o: "Int64_encode offset = Inr (be_bytes 8 offset)"
    using fits by (simp add: fits_frame_def Int64_encode_def pack_def)
  have l: "Int32_encode (int (length ?fm)) = Inr (be_bytes 4 (int (length ?fm)))"
    using len by (simp add: Int32_encode_def pack_def)
  show ?thesis
    using False hdrs inv
    by (auto simp: append_def Let_def mi enc o l bio_write_at_end frame_entry_def)
qed

text \<open>Claim C5. On a writer of magic 0 or 1 reached by any sequence of \<open>append\<close> calls,
  an \<open>append\<close> with empty headers whose arguments fit the frame is accepted whenever no
  message has been accepted yet, whatever its size; afterwards it returns \<open>False\<close> and
  leaves the writer unchanged exactly when the buffer size plus the message-set and
  message header overhead plus the lengths of the non-null key and value exceeds
  \<open>batch_size\<close>, and otherwise it appends the record's frame to the buffer and returns
  \<open>True\<close>.\<close>

theorem C5_append_policy:
  assumes "w = snd (appends ev (LegacyRecordBatchWriter_init magic ct batch_size) calls)"
    and "magic = 0 \<or> magic = 1"
    and "hdrs = None \<or> hdrs = Some []"
    and "fits_frame ev magic offset timestamp key val"
  shows "append ev w offset timestamp key val hdrs =
     (if \<not> w_first_message w
         \<and> int (length (bio_data (w_buffer w)))
             + (MessageSet_HEADER_SIZE + Message_HEADER_SIZE + bytes_len key + bytes_len val)
           > batch_size
      then (Inr False, w)
      else (Inr True,
            w\<lparr>w_first_message := False,
              w_buffer := \<lparr>bio_data = bio_data (w_buffer w)
                            @ frame_entry offset
                                (frame_message ev magic 0
                                   (written_timestamp ev magic timestamp) key val),
                          bio_pos = length (bio_data (w_buffer w))
                            + length (frame_entry offset
                                (frame_message ev magic 0
                                   (written_timestamp ev magic timestamp) key val))\<rparr>\<rparr>))"
proof -
  let ?w0 = "LegacyRecordBatchWriter_init magic ct batch_size"
  from appends_preserves[OF init_inv(1), of ev magic ct batch_size calls]
  have inv: "bio_pos (w_buffer w) = length (bio_data (w_buffer w))"
    and m: "w_magic w = magic" and b: "w_batch_size w = batch_size"
    using assms(1) by (simp_all add: init_inv)
  have full: "is_full w key val \<longleftrightarrow> (\<not> w_first_message w
         \<and> int (length (bio_data (w_buffer w)))
             + (MessageSet_HEADER_SIZE + Message_HEADER_SIZE + bytes_len key + bytes_len val)
           > batch_size)"
    by (simp add: is_full_def Let_def bio_tell_def inv b add.assoc)
  show ?thesis
    using append_eq[OF inv _ assms(3), of ev offset timestamp key val] assms(2,4)
    unfolding m full by simp
qed

theorem C5_append_policy_witness:
  "fits_frame example_env 0 1 None key_test value_Super
   \<and> append example_env
       (snd (appends example_env (LegacyRecordBatchWriter_init 0 0 60)
               [(0, None, key_test, value_Super, None)]))
       1 None key_test value_Super None
     = (Inr False,
        snd (appends example_env (LegacyRecordBatchWriter_init 0 0 60)
               [(0, None, key_test, value_Super, None)]))
   \<and> fst (append example_env (LegacyRecordBatchWriter_init 0 0 60) 0 None key_test value_Super None)
     = Inr True"
proof -
  let ?W = "snd (appends example_env (LegacyRecordBatchWriter_init 0 0 60)
               [(0, None, key_test, value_Super, None)])"
  have h: "fits_frame example_env 0 1 None key_test value_Super"
      "fits_frame example_env 0 0 None key_test value_Super"
    by code_simp+
  have f: "\<not> w_first_message ?W" "int (length (bio_data (w_buffer ?W))) = 39"
    "bytes_len key_test = 4" "bytes_len value_Super = 5"
    "w_first_message (snd (appends example_env (LegacyRecordBatchWriter_init 0 0 60) []))"
    by code_simp+
  have a: "append example_env ?W 1 None key_test value_Super None = (Inr False, ?W)"
    using C5_append_policy[where ct=0 and batch_size=60 and hdrs=None
            and calls="[(0, None, key_test, value_Super, None)]", OF refl _ _ h(1)] f(1-4)
    by (simp add: MessageSet_HEADER_SIZE_def Message_HEADER_SIZE_def)
  have b: "fst (append example_env (LegacyRecordBatchWriter_init 0 0 60) 0 None key_test value_Super None) = Inr True"
    using C5_append_policy[where ct=0 and batch_size=60 and hdrs=None and calls="[]",
            OF refl _ _ h(2)] f(5)
    by simp
  show ?thesis using h(1) a b by blast
qed

subsection \<open>Closing the writer\<close>

lemma mv_assign_in_range:
  "0 \<le> i \<Longrightarrow> i \<le> j \<Longrightarrow> j \<le> int (length v) \<Longrightarrow> nat (j - i) = length src \<Longrightarrow>
   mv_assign v i j src = Inr (take (nat i) v @ src @ drop (nat j) v)"
  by (auto simp: mv_assign_def py_clip_def Let_def min_def nat_diff_distrib' intro!: arg_cong[where f="\<lambda>k. drop k v"])


text \<open>The three slice assignments of \<open>_maybe_compress\<close> write the wrapper's entry over the
  front of the records region.\<close>

lemma wrapper_assignments:
  assumes "int (length encoded) + 12 < int (length data)" "int (length encoded) < 2 ^ 31"
  shows "and_then (Int64_encode 0) (\<lambda>off.
         and_then (mv_assign data 0 8 off) (\<lambda>d1.
         and_then (Int32_encode (int (length encoded))) (\<lambda>sz.
         and_then (mv_assign d1 8 12 sz) (\<lambda>d2.
         mv_assign d2 12 (12 + int (length encoded)) encoded))))
       = Inr (frame_entry 0 encoded @ drop (12 + length encoded) data)"
proof -
  let ?off = "be_bytes 8 0" and ?sz = "be_bytes 4 (int (length encoded))"
  have o: "Int64_encode 0 = Inr ?off" by (simp add: Int64_encode_def pack_def)
  have s: "Int32_encode (int (length encoded)) = Inr ?sz"
    using assms(2) by (simp add: Int32_encode_def pack_def)
  have d1: "mv_assign data 0 8 ?off = Inr (?off @ drop 8 data)"
    using assms(1) by (subst mv_assign_in_range) auto
  have d2: "mv_assign (?off @ drop 8 data) 8 12 ?sz = Inr (?off @ ?sz @ drop 12 data)"
    using assms(1) by (subst mv_assign_in_range) auto
  have d3: "mv_assign (?off @ ?sz @ drop 12 data) 12 (12 + int (length encoded)) encoded
      = Inr (?off @ ?sz @ encoded @ drop (12 + length encoded) data)"
    using assms(1) by (subst mv_assign_in_range) (auto simp: nat_add_distrib add.commute)
  show ?thesis by (simp add: o s d1 d2 d3 frame_entry_def)
qed

lemma length_frame_entry: "length (frame_entry offset m) = 12 + length m"
  by (simp add: frame_entry_def)

text \<open>The wrapper message \<open>_maybe_compress\<close> builds and its encoding.\<close>

lemma wrapper_encode:
  assumes "magic = 0 \<or> magic = 1"
    and "ct = CODEC_GZIP \<or> ct = CODEC_SNAPPY \<or> ct = CODEC_LZ4"
    and "magic = 1 \<longrightarrow> - (2 ^ 63) \<le> now_ms ev \<and> now_ms ev < 2 ^ 63"
    and "22 + int (length compressed) < 2 ^ 31"
  shows "and_then (Message_init ev (Some compressed) None magic ct 0 None) (Message_encode ev)
       = Inr (frame_message ev magic ct (written_timestamp ev magic None) None (Some compressed))"
proof -
  let ?m = "\<lparr>msg_crc = 0, msg_magic = magic, msg_attributes = ct,
             msg_timestamp = written_timestamp ev magic None,
             msg_key = None, msg_value = Some compressed, msg_validated_crc = None\<rparr>"
  have mi: "Message_init ev (Some compressed) None magic ct 0 None = Inr ?m"
    using assms(1) by (auto simp: Message_init_def written_timestamp_def)
  have "Message_encode ev ?m = Inr (frame_message ev (msg_magic ?m) (msg_attributes ?m)
          (msg_timestamp ?m) (msg_key ?m) (msg_value ?m))"
    using assms
    by (intro Message_encode_frame)
       (auto simp: written_timestamp_def bytes_len_def CODEC_GZIP_def CODEC_SNAPPY_def CODEC_LZ4_def)
  then show ?thesis by (simp add: mi)
qed

lemma bytesio_update_all:
  "b\<lparr>bio_pos := p, bio_data := d\<rparr> = \<lparr>bio_data = d, bio_pos = p\<rparr>"
  by (cases b) simp

lemma maybe_compress_eq:
  assumes inv: "bio_pos (w_buffer w) = length (bio_data (w_buffer w))"
    and four: "4 \<le> length (bio_data (w_buffer w))"
    and magic: "w_magic w = 0 \<or> w_magic w = 1"
    and ct: "w_compression_type w = CODEC_GZIP \<or> w_compression_type w = CODEC_SNAPPY
             \<or> w_compression_type w = CODEC_LZ4"
    and comp: "compress_region ev (w_compression_type w) (w_magic w)
                 (drop 4 (bio_data (w_buffer w))) = Inr compressed"
    and now: "w_magic w = 1 \<longrightarrow> - (2 ^ 63) \<le> now_ms ev \<and> now_ms ev < 2 ^ 63"
    and len: "22 + int (length compressed) < 2 ^ 31"
    and enc: "encoded = frame_message ev (w_magic w) (w_compression_type w)
                (written_timestamp ev (w_magic w) None) None (Some compressed)"
  shows "maybe_compress ev w =
     (if int (length encoded) + 12 < int (length (drop 4 (bio_data (w_buffer w))))
      then (Inr True,
            w\<lparr>w_buffer := \<lparr>bio_data = take 4 (bio_data (w_buffer w)) @ frame_entry 0 encoded,
                          bio_pos = 16 + length encoded\<rparr>\<rparr>)
      else (Inr False, w))"
proof -
  let ?data = "drop 4 (bio_data (w_buffer w))"
  have nz: "w_compression_type w \<noteq> 0"
    using ct by (auto simp: CODEC_GZIP_def CODEC_SNAPPY_def CODEC_LZ4_def)
  have e: "and_then (compress_region ev (w_compression_type w) (w_magic w) ?data) (\<lambda>compressed.
             and_then (Message_init ev (Some compressed) None (w_magic w)
                         (w_compression_type w) 0 None) (\<lambda>msg.
             Message_encode ev msg)) = Inr encoded"
    using wrapper_encode[OF magic ct now len] by (simp add: comp enc)
  have el: "int (length encoded) < 2 ^ 31"
    using length_frame_message[of ev "w_magic w" "w_compression_type w"
            "written_timestamp ev (w_magic w) None" None "Some compressed"] len
    by (auto simp: enc bytes_len_def written_timestamp_def split: option.splits if_splits)
  show ?thesis
  proof (cases "int (length encoded) + 12 < int (length ?data)")
    case True
    note wa = wrapper_assignments[OF True el]
    have t: "take (16 + length encoded)
               (take 4 (bio_data (w_buffer w)) @ frame_entry 0 encoded
                  @ drop (12 + length encoded) ?data)
             = take 4 (bio_data (w_buffer w)) @ frame_entry 0 encoded"
      using four by (simp add: length_frame_entry)
    show ?thesis
      using True nz
      by (simp add: maybe_compress_def Let_def e wa bio_seek_def bio_truncate_def
          length_frame_entry bytesio_update_all)
  next
    case False
    then show ?thesis using nz by (simp add: maybe_compress_def Let_def e)
  qed
qed



lemma close_after:
  assumes "maybe_compress ev w = (Inr c, w1)"
    and "bio_pos (w_buffer w1) = length (bio_data (w_buffer w1))"
    and "4 \<le> length (bio_data (w_buffer w1))"
    and "int (length (bio_data (w_buffer w1))) - 4 < 2 ^ 31"
  shows "fst (close ev w) =
           Inr \<lparr>bio_data = be_bytes 4 (int (length (bio_data (w_buffer w1))) - 4)
                             @ drop 4 (bio_data (w_buffer w1)),
                bio_pos = 0\<rparr>"
proof -
  have "Int32_encode (int (length (bio_data (w_buffer w1))) - 4)
      = Inr (be_bytes 4 (int (length (bio_data (w_buffer w1))) - 4))"
    using assms(3,4) by (simp add: Int32_encode_def pack_def)
  then show ?thesis
    using assms(1,2)
    by (simp add: close_def Let_def bio_tell_def bio_seek_def bio_write_def)
qed


lemma reached_writer:
  assumes "w = snd (appends ev (LegacyRecordBatchWriter_init magic ct batch_size) calls)"
  shows "bio_pos (w_buffer w) = length (bio_data (w_buffer w))"
    and "4 \<le> length (bio_data (w_buffer w))"
    and "take 4 (bio_data (w_buffer w)) = be_bytes 4 0"
    and "w_magic w = magic" and "w_compression_type w = ct" and "w_batch_size w = batch_size"
  using appends_preserves[OF init_inv(1), of ev magic ct batch_size calls] assms
  by (auto simp: init_inv)

lemma close_compressed:
  assumes w: "w = snd (appends ev (LegacyRecordBatchWriter_init magic ct batch_size) calls)"
    and magic: "magic = 0 \<or> magic = 1"
    and data: "data = drop 4 (bio_data (w_buffer w))"
    and dl: "int (length data) < 2 ^ 31"
    and ct: "ct = CODEC_GZIP \<or> ct = CODEC_SNAPPY \<or> ct = CODEC_LZ4"
    and comp: "compress_region ev ct magic data = Inr compressed"
    and now: "magic = 1 \<longrightarrow> - (2 ^ 63) \<le> now_ms ev \<and> now_ms ev < 2 ^ 63"
    and len: "22 + int (length compressed) < 2 ^ 31"
    and enc: "encoded = frame_message ev magic ct (written_timestamp ev magic None) None
                          (Some compressed)"
  shows "fst (close ev w) =
     Inr \<lparr>bio_data =
            (if int (length encoded) + 12 < int (length data)
             then be_bytes 4 (int (length (frame_entry 0 encoded))) @ frame_entry 0 encoded
             else be_bytes 4 (int (length data)) @ data),
          bio_pos = 0\<rparr>"
proof -
  note r = reached_writer[OF w]
  have mc: "maybe_compress ev w =
     (if int (length encoded) + 12 < int (length (drop 4 (bio_data (w_buffer w))))
      then (Inr True,
            w\<lparr>w_buffer := \<lparr>bio_data = take 4 (bio_data (w_buffer w)) @ frame_entry 0 encoded,
                          bio_pos = 16 + length encoded\<rparr>\<rparr>)
      else (Inr False, w))"
    using magic ct comp now len enc
    by (intro maybe_compress_eq[OF r(1,2)]) (simp_all add: r(4,5) data)
  show ?thesis
  proof (cases "int (length encoded) + 12 < int (length data)")
    case True
    let ?w1 = "w\<lparr>w_buffer := \<lparr>bio_data = take 4 (bio_data (w_buffer w)) @ frame_entry 0 encoded,
                          bio_pos = 16 + length encoded\<rparr>\<rparr>"
    have m: "maybe_compress ev w = (Inr True, ?w1)" using mc True data by simp
    have "fst (close ev w) =
           Inr \<lparr>bio_data = be_bytes 4 (int (length (bio_data (w_buffer ?w1))) - 4)
                             @ drop 4 (bio_data (w_buffer ?w1)),
                bio_pos = 0\<rparr>"
      using True dl r(2) by (intro close_after[OF m]) (simp_all add: length_frame_entry)
    then show ?thesis using True r(2) by (simp add: length_frame_entry)
  next
    case False
    have m: "maybe_compress ev w = (Inr False, w)" using mc False data by simp
    have c: "fst (close ev w) =
           Inr \<lparr>bio_data = be_bytes 4 (int (length (bio_data (w_buffer w))) - 4)
                             @ drop 4 (bio_data (w_buffer w)),
                bio_pos = 0\<rparr>"
      using dl r(1,2) data by (intro close_after[OF m]) simp_all
    have eq: "int (length (bio_data (w_buffer w))) - 4 = int (length data)"
      using r(2) data by simp
    show ?thesis by (simp only: c eq data[symmetric] False if_False)
  qed
qed




text \<open>Claim C8. With LZ4 configured, the records region is compressed with
  \<open>lz4_encode_old_kafka\<close> when magic is 0 and with \<open>lz4_encode\<close> for every other magic, and
  the buffer \<open>close\<close> returns for magic 0 and magic 1 is decided by, and when smaller holds,
  the wrapper around exactly that codec's output.\<close>

theorem C8_lz4_variant:
  assumes w: "w = snd (appends ev (LegacyRecordBatchWriter_init magic CODEC_LZ4 batch_size) calls)"
    and magic: "magic = 0 \<or> magic = 1"
    and data: "data = drop 4 (bio_data (w_buffer w))"
    and dl: "int (length data) < 2 ^ 31"
    and comp: "compressed = (if magic = 0 then lz4_encode_old_kafka ev data
                             else lz4_encode ev data)"
    and now: "magic = 1 \<longrightarrow> - (2 ^ 63) \<le> now_ms ev \<and> now_ms ev < 2 ^ 63"
    and len: "22 + int (length compressed) < 2 ^ 31"
    and enc: "encoded = frame_message ev magic CODEC_LZ4 (written_timestamp ev magic None) None
                          (Some compressed)"
  shows "(\<forall>m d. compress_region ev CODEC_LZ4 m d =
            Inr (if m = 0 then lz4_encode_old_kafka ev d else lz4_encode ev d))
       \<and> fst (close ev w) =
           Inr \<lparr>bio_data =
                  (if int (length encoded) + 12 < int (length data)
                   then be_bytes 4 (int (length (frame_entry 0 encoded))) @ frame_entry 0 encoded
                   else be_bytes 4 (int (length data)) @ data),
                bio_pos = 0\<rparr>"
proof -
  have c: "compress_region ev CODEC_LZ4 m d =
            Inr (if m = 0 then lz4_encode_old_kafka ev d else lz4_encode ev d)" for m d
    by (simp add: compress_region_def CODEC_GZIP_def CODEC_SNAPPY_def CODEC_LZ4_def)
  have "compress_region ev CODEC_LZ4 magic data = Inr compressed"
    by (simp only: c comp)
  from close_compressed[OF w magic data dl _ this now len enc] c
  show ?thesis by simp
qed


theorem C8_lz4_variant_witness:
  "int (length (frame_message example_env 0 CODEC_LZ4 None None
                  (Some (lz4_encode_old_kafka example_env
                           (drop 4 (bio_data (w_buffer writer_lz4_v0))))))) + 12
     < int (length (drop 4 (bio_data (w_buffer writer_lz4_v0))))
   \<and> fst (close example_env writer_lz4_v0) =
       Inr \<lparr>bio_data =
              be_bytes 4 (int (length (frame_entry 0
                 (frame_message example_env 0 CODEC_LZ4 None None
                    (Some (lz4_encode_old_kafka example_env
                             (drop 4 (bio_data (w_buffer writer_lz4_v0)))))))))
              @ frame_entry 0
                 (frame_message example_env 0 CODEC_LZ4 None None
                    (Some (lz4_encode_old_kafka example_env
                             (drop 4 (bio_data (w_buffer writer_lz4_v0)))))),
            bio_pos = 0\<rparr>"
proof -
  let ?data = "drop 4 (bio_data (w_buffer writer_lz4_v0))"
  let ?c = "lz4_encode_old_kafka example_env ?data"
  let ?e = "frame_message example_env 0 CODEC_LZ4 None None (Some ?c)"
  have dl: "int (length ?data) < 2 ^ 31" by code_simp
  have len: "22 + int (length ?c) < 2 ^ 31" by code_simp
  have lt: "int (length ?e) + 12 < int (length ?data)" by code_simp
  have c: "?c = (if (0::int) = 0 then lz4_encode_old_kafka example_env ?data
                 else lz4_encode example_env ?data)" by simp
  have e: "?e = frame_message example_env 0 CODEC_LZ4 (written_timestamp example_env 0 None) None (Some ?c)"
    by (simp add: written_timestamp_def)
  from C8_lz4_variant[where ev=example_env and magic=0 and batch_size=1000000 and calls=two_calls,
         OF writer_lz4_v0_def _ refl dl c _ len e]
  have "fst (close example_env writer_lz4_v0) =
           Inr \<lparr>bio_data =
                  (if int (length ?e) + 12 < int (length ?data)
                   then be_bytes 4 (int (length (frame_entry 0 ?e))) @ frame_entry 0 ?e
                   else be_bytes 4 (int (length ?data)) @ ?data),
                bio_pos = 0\<rparr>"
    by simp
  then show ?thesis using lt by (simp only: if_True simp_thms)
qed

subsection \<open>Iterating a compressed wrapper\<close>

lemma iter_inner_items:
  "iter_inner msg base (map (\<lambda>(offset, sz, m). Item offset sz m) triples) =
     (map (\<lambda>(offset, sz, m).
             \<lparr>rec_offset = (if base \<ge> 0 then offset + base else offset),
              rec_timestamp =
                (if msg_magic msg > 0 then
                   (if Message_timestamp_type msg = Some 0 then msg_timestamp m
                    else msg_timestamp msg)
                 else Some 0),
              rec_timestamp_type = Message_timestamp_type msg,
              rec_key = msg_key m, rec_value = msg_value m, rec_crc = msg_crc m\<rparr>) triples,
      None)"
  by (induction triples) (auto simp: Let_def)

lemma iter_records_compressed:
  assumes "Message_is_compressed msg"
    and "Message_decompress ev msg = Inr (map (\<lambda>(offset, sz, m). Item offset sz m) triples)"
    and "msg_magic msg > 0 \<longrightarrow> triples \<noteq> []"
    and "base = (if msg_magic msg > 0 then offset - fst (last triples) else - 1)"
  shows "iter_records ev (Item offset sz msg) =
     (map (\<lambda>(inner_offset, inner_size, inner_msg).
             \<lparr>rec_offset = (if base \<ge> 0 then inner_offset + base else inner_offset),
              rec_timestamp =
                (if msg_magic msg > 0 then
                   (if Message_timestamp_type msg = Some 0 then msg_timestamp inner_msg
                    else msg_timestamp msg)
                 else Some 0),
              rec_timestamp_type = Message_timestamp_type msg,
              rec_key = msg_key inner_msg, rec_value = msg_value inner_msg,
              rec_crc = msg_crc inner_msg\<rparr>) triples,
      None)"
proof (cases "msg_magic msg > 0")
  case True
  with assms(3) obtain t ts where ts: "triples = ts @ [t]"
    by (cases triples rule: rev_cases) auto
  obtain lo ls lm where t: "t = (lo, ls, lm)" by (cases t) auto
  have l: "last (map (\<lambda>(offset, sz, m). Item offset sz m) triples) = Item lo ls lm"
    by (simp add: ts t)
  have ne: "map (\<lambda>(offset, sz, m). Item offset sz m) triples \<noteq> []" by (simp add: ts)
  have b: "base = offset - lo" using True assms(4) by (simp add: ts t)
  show ?thesis
    unfolding b using True assms(1,2) ne l
    by (simp add: iter_records_def iter_inner_items list.case_eq_if del: last_map)
next
  case False
  then have b: "base = - 1" using assms(4) by simp
  show ?thesis
    unfolding b using False assms(1,2)
    by (simp add: iter_records_def iter_inner_items)
qed



text \<open>Claim C7, as the code has it. For a compressed wrapper whose value decompresses to a
  message set of whole messages (not empty when magic is above 0): with magic above 0 the
  base is the wrapper's offset minus the last inner offset, and each inner record is
  yielded with its inner offset plus the base when the base is not negative, and with its
  inner offset unchanged when the base is negative; with magic 0 inner offsets are yielded
  unchanged. The records come in the order of the inner message set, each with its inner
  message's key, value and CRC. With magic above 0 each inner record takes its own
  timestamp when the wrapper's timestamp type is CREATE_TIME (0) and the wrapper's
  timestamp otherwise.\<close>

theorem C7_inner_records:
  assumes "Message_is_compressed msg"
    and "Message_decompress ev msg = Inr (map (\<lambda>(offset, sz, m). Item offset sz m) triples)"
    and "msg_magic msg > 0 \<longrightarrow> triples \<noteq> []"
    and "base = (if msg_magic msg > 0 then offset - fst (last triples) else - 1)"
  shows "snd (iter_records ev (Item offset sz msg)) = None
     \<and> map rec_offset (fst (iter_records ev (Item offset sz msg))) =
         map (\<lambda>(inner_offset, inner_size, inner_msg).
                if base \<ge> 0 then inner_offset + base else inner_offset) triples
     \<and> map rec_key (fst (iter_records ev (Item offset sz msg))) =
         map (\<lambda>(inner_offset, inner_size, inner_msg). msg_key inner_msg) triples
     \<and> map rec_value (fst (iter_records ev (Item offset sz msg))) =
         map (\<lambda>(inner_offset, inner_size, inner_msg). msg_value inner_msg) triples
     \<and> map rec_crc (fst (iter_records ev (Item offset sz msg))) =
         map (\<lambda>(inner_offset, inner_size, inner_msg). msg_crc inner_msg) triples
     \<and> (msg_magic msg > 0 \<longrightarrow>
          map rec_timestamp (fst (iter_records ev (Item offset sz msg))) =
          map (\<lambda>(inner_offset, inner_size, inner_msg).
                 if Message_timestamp_type msg = Some 0 then msg_timestamp inner_msg
                 else msg_timestamp msg) triples)"
  unfolding iter_records_compressed[OF assms]
  by (simp add: case_prod_beta comp_def)

text \<open>Claim C7 as stated fails on what the magic-1 gzip writer itself produces: the
  wrapper has offset 0 and the inner offsets are 0 and 1, so the base is \<open>-1\<close>, and the
  records are yielded with offsets 0 and 1, not \<open>-1\<close> and 0.\<close>

theorem C7_counterexample:
  "read_item example_env writer_gzip_v1 = Item 0 102 wrapper_gzip_v1
   \<and> msg_magic wrapper_gzip_v1 = 1
   \<and> Message_is_compressed wrapper_gzip_v1
   \<and> inner_offsets example_env (Item 0 102 wrapper_gzip_v1) = [Some 0, Some 1]
   \<and> map rec_offset (fst (iter_records example_env (Item 0 102 wrapper_gzip_v1))) = [0, 1]
   \<and> map rec_offset (fst (iter_records example_env (Item 0 102 wrapper_gzip_v1)))
       \<noteq> [0 + (0 - 1), 1 + (0 - 1)]"
  by code_simp

theorem C7_inner_records_witness:
  "Message_is_compressed wrapper_gzip_v1
   \<and> Message_decompress example_env wrapper_gzip_v1
       = Inr [Item 0 66 inner_message_v1, Item 1 66 inner_message_v1]
   \<and> map rec_offset (fst (iter_records example_env (Item 5 102 wrapper_gzip_v1))) = [0 + 4, 1 + 4]
   \<and> map rec_offset (fst (iter_records example_env (Item 0 102 wrapper_gzip_v1))) = [0, 1]
   \<and> map rec_timestamp (fst (iter_records example_env (Item 5 102 wrapper_gzip_v1)))
       = [Some 9999999, Some 9999999]"
proof -
  have c: "Message_is_compressed wrapper_gzip_v1" by code_simp
  have m: "0 < msg_magic wrapper_gzip_v1" "Message_timestamp_type wrapper_gzip_v1 = Some 0"
    "msg_timestamp inner_message_v1 = Some 9999999"
    by code_simp+
  have d: "Message_decompress example_env wrapper_gzip_v1
       = Inr (map (\<lambda>(offset, sz, m). Item offset sz m)
                [(0, 66, inner_message_v1), (1, 66, inner_message_v1)])"
    by code_simp
  have d': "Message_decompress example_env wrapper_gzip_v1
       = Inr [Item 0 66 inner_message_v1, Item 1 66 inner_message_v1]"
    using d by simp
  have a: "map rec_offset (fst (iter_records example_env (Item 5 102 wrapper_gzip_v1))) = [0 + 4, 1 + 4]"
    and t: "map rec_timestamp (fst (iter_records example_env (Item 5 102 wrapper_gzip_v1)))
       = [Some 9999999, Some 9999999]"
    using C7_inner_records[OF c d, where offset=5 and sz=102 and base=4] m by simp_all
  have b: "map rec_offset (fst (iter_records example_env (Item 0 102 wrapper_gzip_v1))) = [0, 1]"
    using C7_inner_records[OF c d, where offset=0 and sz=102 and base="- 1"] m by simp
  show ?thesis using c d' a b t by blast
qed

subsection \<open>CRC validation in the legacy reader\<close>











subsection \<open>Reading a closed writer back\<close>

text \<open>Claim C1, evaluated. Two records are appended and accepted. Without compression
  (magic 0) the reader constructed on the closed buffer yields one record, the first;
  with gzip (magic 1), where the closed buffer holds the compressed wrapper, the reader
  yields both records, with the appended offsets, keys, values and timestamps.\<close>

theorem C1_uncompressed_reads_first_only:
  "fst (appends example_env (LegacyRecordBatchWriter_init 0 0 1000000) two_calls)
     = [Inr True, Inr True]
   \<and> read_back example_env writer_plain_v0 =
       Inr ([\<lparr>rec_offset = 0, rec_timestamp = None, rec_timestamp_type = None,
               rec_key = key_test, rec_value = value_A40, rec_crc = 3092\<rparr>], None)
   \<and> fst (appends example_env (LegacyRecordBatchWriter_init 1 CODEC_GZIP 1000000) two_calls)
     = [Inr True, Inr True]
   \<and> read_back example_env writer_gzip_v1 =
       Inr ([\<lparr>rec_offset = 0, rec_timestamp = Some 9999999, rec_timestamp_type = Some 0,
               rec_key = key_test, rec_value = value_A40, rec_crc = 3522\<rparr>,
             \<lparr>rec_offset = 1, rec_timestamp = Some 9999999, rec_timestamp_type = Some 0,
               rec_key = key_test, rec_value = value_A40, rec_crc = 3522\<rparr>], None)"
  by code_simp

end
